theory Spec2Isabelle
  imports Main "HOL-Library.Word"
begin

unbundle bit_operations_syntax

section \<open>Machine types of the target (Arduino Nano, AVR)\<close>

text \<open>
  On the AVR target a \<^verbatim>\<open>byte\<close> is 8 bits, an \<^verbatim>\<open>int\<close> is a 16-bit two's complement
  value and \<^verbatim>\<open>time_t\<close> is 4 bytes (the sizes written in the comments of
  \<^verbatim>\<open>nwEEPROM.h\<close>: 32 + 4 + 1 = 37, and 2 for the count). Arithmetic on \<^verbatim>\<open>int\<close> is
  modelled with wrap-around; signed comparisons read the word with \<open>sint\<close>.
\<close>

type_synonym byte = "8 word"
type_synonym cint = "16 word"
type_synonym time_t = "32 word"

text \<open>The memory image of an \<^verbatim>\<open>int\<close> and of a \<^verbatim>\<open>time_t\<close> (AVR is little-endian).\<close>

definition int_bytes :: "cint \<Rightarrow> byte list" where
  "int_bytes w = [ucast w, ucast (drop_bit 8 w)]"

definition int_of_bytes :: "byte list \<Rightarrow> cint" where
  "int_of_bytes bs = ucast (bs ! 0) OR push_bit 8 (ucast (bs ! 1))"

definition time_bytes :: "time_t \<Rightarrow> byte list" where
  "time_bytes w = [ucast w, ucast (drop_bit 8 w), ucast (drop_bit 16 w), ucast (drop_bit 24 w)]"

definition time_of_bytes :: "byte list \<Rightarrow> time_t" where
  "time_of_bytes bs =
     ucast (bs ! 0) OR push_bit 8 (ucast (bs ! 1)) OR
     push_bit 16 (ucast (bs ! 2)) OR push_bit 24 (ucast (bs ! 3))"

section \<open>NanoWatchdog.h\<close>

definition nwVersionSize :: nat where
  "nwVersionSize = 32"

text \<open>The version string in program memory, with its terminating null byte.\<close>

definition nwVersionString :: "byte list" where
  "nwVersionString = map (\<lambda>c. of_nat (of_char c)) ''NanoWatchdog v11.2017'' @ [0]"

section \<open>nwReason\<close>

definition NW_REASON_INIT :: cint where
  "NW_REASON_INIT = 0"

definition NW_REASON_NOPING :: cint where
  "NW_REASON_NOPING = 1"

definition NW_REASON_DEFAULT :: cint where
  "NW_REASON_DEFAULT = NW_REASON_NOPING"

definition NW_REASON_COMMAND_START :: cint where
  "NW_REASON_COMMAND_START = 16"

definition NW_REASON_MAX :: cint where
  "NW_REASON_MAX = 127"

definition nwReasonString :: "cint \<Rightarrow> string" where
  "nwReasonString code =
     (if code = NW_REASON_INIT then ''initialization''
      else if code = NW_REASON_NOPING then ''no ping''
      else if NW_REASON_COMMAND_START \<le>s code then ''external command''
      else ''unknown reason code'')"

section \<open>The non-volatile store\<close>

text \<open>
  Modelled from the spec: the \<^verbatim>\<open>Nvm\<close> collaborator (the Arduino \<^verbatim>\<open>EEPROM\<close> object, which is
  not part of the repository) is a byte-addressable persistent store. \<^verbatim>\<open>EEPROM.get(idx, t)\<close>
  reads \<^verbatim>\<open>sizeof(t)\<close> consecutive bytes starting at \<^verbatim>\<open>idx\<close>; \<^verbatim>\<open>EEPROM.put(idx, t)\<close> updates
  \<^verbatim>\<open>sizeof(t)\<close> consecutive bytes starting at \<^verbatim>\<open>idx\<close>, reading each cell and writing it
  only when the new byte differs. Addresses are the 16-bit \<^verbatim>\<open>int\<close> index of the library.
  The field \<open>accessed\<close> logs every address handed to the store (newest first), so that
  statements about which cells an operation touches can be made.
\<close>

record nvm =
  cells :: "cint \<Rightarrow> byte"
  accessed :: "cint list"

definition eeprom_read_byte :: "cint \<Rightarrow> nvm \<Rightarrow> byte \<times> nvm" where
  "eeprom_read_byte a s = (cells s a, s\<lparr>accessed := a # accessed s\<rparr>)"

definition eeprom_write_byte :: "cint \<Rightarrow> byte \<Rightarrow> nvm \<Rightarrow> nvm" where
  "eeprom_write_byte a b s = s\<lparr>cells := (cells s)(a := b), accessed := a # accessed s\<rparr>"

definition EERef_update :: "cint \<Rightarrow> byte \<Rightarrow> nvm \<Rightarrow> nvm" where
  "EERef_update a b s =
     (case eeprom_read_byte a s of
        (cur, s1) \<Rightarrow> if b \<noteq> cur then eeprom_write_byte a b s1 else s1)"

fun EEPROM_get :: "cint \<Rightarrow> nat \<Rightarrow> nvm \<Rightarrow> byte list \<times> nvm" where
  "EEPROM_get idx 0 s = ([], s)"
| "EEPROM_get idx (Suc n) s =
     (case eeprom_read_byte idx s of
        (b, s1) \<Rightarrow> (case EEPROM_get (idx + 1) n s1 of (bs, s2) \<Rightarrow> (b # bs, s2)))"

fun EEPROM_put :: "cint \<Rightarrow> byte list \<Rightarrow> nvm \<Rightarrow> nvm" where
  "EEPROM_put idx [] s = s"
| "EEPROM_put idx (b # bs) s = EEPROM_put (idx + 1) bs (EERef_update idx b s)"

section \<open>nwEEPROM.h: the serialized structure and the layout\<close>

record nwEventStr =
  str_version :: "byte list"
  str_time :: time_t
  str_ack_reason :: byte

text \<open>\<^verbatim>\<open>sizeof\<close> on the target: no padding between byte-aligned members.\<close>

definition sizeof_time_t :: nat where
  "sizeof_time_t = 4"

definition sizeof_byte :: nat where
  "sizeof_byte = 1"

definition sizeof_int :: nat where
  "sizeof_int = 2"

definition nwEventStrSize :: nat where
  "nwEventStrSize = nwVersionSize + sizeof_time_t + sizeof_byte"

definition nwInitEventAdr :: nat where
  "nwInitEventAdr = 0"

definition nwResetCountAdr :: nat where
  "nwResetCountAdr = nwInitEventAdr + nwEventStrSize"

definition nwResetEventAdr :: nat where
  "nwResetEventAdr = nwResetCountAdr + sizeof_int"

definition EEPROM_SIZE :: nat where
  "EEPROM_SIZE = 1024"

definition NW_MAX_RESET_EVENT :: cint where
  "NW_MAX_RESET_EVENT = 10"

text \<open>The bytes of a \<^verbatim>\<open>nwEventStr\<close> object in memory, and the object made of 37 bytes.\<close>

definition nwEventStr_bytes :: "nwEventStr \<Rightarrow> byte list" where
  "nwEventStr_bytes e =
     map (\<lambda>i. str_version e ! i) [0..<nwVersionSize] @ time_bytes (str_time e) @ [str_ack_reason e]"

definition nwEventStr_of_bytes :: "byte list \<Rightarrow> nwEventStr" where
  "nwEventStr_of_bytes bs =
     \<lparr>str_version = take nwVersionSize bs,
      str_time = time_of_bytes (take sizeof_time_t (drop nwVersionSize bs)),
      str_ack_reason = bs ! (nwVersionSize + sizeof_time_t)\<rparr>"

section \<open>nwEvent\<close>

record nwEvent =
  ev_version :: "byte list"
  ev_time :: time_t
  ev_reason :: cint
  ev_ack :: bool

text \<open>
  The copy loop of \<^verbatim>\<open>nwEvent::setup\<close>: it copies the program-memory string byte by byte and
  stops after the null byte. The first argument is what remains of the string. The string
  of \<^verbatim>\<open>NanoWatchdog.h\<close> has 21 characters and its null byte, so the loop stops inside the
  32 bytes of the buffer and before the end of the string; the empty case and an update
  past the buffer are never reached.
\<close>

fun copy_version :: "byte list \<Rightarrow> nat \<Rightarrow> byte list \<Rightarrow> byte list" where
  "copy_version [] i v = v"
| "copy_version (c # cs) i v =
     (if c = 0 then v[i := c] else copy_version cs (Suc i) (v[i := c]))"

text \<open>\<^verbatim>\<open>now\<close> is the reading of the clock (\<^verbatim>\<open>now()\<close> of the Time library).\<close>

definition nwEvent_setup :: "time_t \<Rightarrow> nwEvent" where
  "nwEvent_setup now =
     \<lparr>ev_version = copy_version nwVersionString 0 (replicate nwVersionSize 0),
      ev_time = now,
      ev_reason = NW_REASON_DEFAULT,
      ev_ack = False\<rparr>"

definition nwEvent_default :: "time_t \<Rightarrow> nwEvent" where
  "nwEvent_default now = nwEvent_setup now"

definition nwEvent_with_reason :: "time_t \<Rightarrow> cint \<Rightarrow> nwEvent" where
  "nwEvent_with_reason now reason = (nwEvent_setup now)\<lparr>ev_reason := reason\<rparr>"

text \<open>
  \<^verbatim>\<open>readFromEEPROM\<close> assigns every member of the object (the 32 version bytes, the time,
  the reason and the acknowledgement), so the model returns the object read.
\<close>

definition nwEvent_of_str :: "nwEventStr \<Rightarrow> nwEvent" where
  "nwEvent_of_str ev =
     \<lparr>ev_version = map (\<lambda>i. str_version ev ! i) [0..<nwVersionSize],
      ev_time = str_time ev,
      ev_reason = ucast (str_ack_reason ev) AND 0x7F,
      ev_ack = (drop_bit 7 (ucast (str_ack_reason ev) :: cint) \<noteq> 0)\<rparr>"

definition readFromEEPROM :: "cint \<Rightarrow> nvm \<Rightarrow> nwEvent \<times> nvm" where
  "readFromEEPROM adr s =
     (case EEPROM_get adr nwEventStrSize s of
        (bs, s1) \<Rightarrow> (nwEvent_of_str (nwEventStr_of_bytes bs), s1))"

definition nwEvent_to_str :: "nwEvent \<Rightarrow> nwEventStr" where
  "nwEvent_to_str e =
     \<lparr>str_version = map (\<lambda>i. ev_version e ! i) [0..<nwVersionSize],
      str_time = ev_time e,
      str_ack_reason = ucast (ev_reason e) OR (if ev_ack e then 0x80 else 0)\<rparr>"

definition writeToEEPROM :: "nwEvent \<Rightarrow> cint \<Rightarrow> nvm \<Rightarrow> nvm" where
  "writeToEEPROM e adr s = EEPROM_put adr (nwEventStr_bytes (nwEvent_to_str e)) s"

definition acknowledge :: "nwEvent \<Rightarrow> bool \<Rightarrow> nwEvent" where
  "acknowledge e ack = e\<lparr>ev_ack := ack\<rparr>"

definition isNull :: "nwEvent \<Rightarrow> bool" where
  "isNull e = (ev_time e = 0)"

section \<open>nwEEPROM\<close>

definition nwEEPROMInitEventGet :: "nvm \<Rightarrow> nwEvent \<times> nvm" where
  "nwEEPROMInitEventGet s = readFromEEPROM (of_nat nwInitEventAdr) s"

definition nwEEPROMInitEventSet :: "nwEvent \<Rightarrow> nvm \<Rightarrow> nvm" where
  "nwEEPROMInitEventSet ev s = writeToEEPROM ev (of_nat nwInitEventAdr) s"

definition nwEEPROMResetEventCountGet :: "nvm \<Rightarrow> cint \<times> nvm" where
  "nwEEPROMResetEventCountGet s =
     (case EEPROM_get (of_nat nwResetCountAdr) sizeof_int s of
        (bs, s1) \<Rightarrow> (int_of_bytes bs, s1))"

definition nwEEPROMResetEventGet :: "cint \<Rightarrow> nvm \<Rightarrow> nwEvent \<times> nvm" where
  "nwEEPROMResetEventGet index s =
     readFromEEPROM (of_nat nwResetEventAdr + index * of_nat nwEventStrSize) s"

definition nwEEPROMResetEventSet :: "nwEvent \<Rightarrow> cint \<Rightarrow> nvm \<Rightarrow> nvm" where
  "nwEEPROMResetEventSet ev index s =
     writeToEEPROM ev (of_nat nwResetEventAdr + index * of_nat nwEventStrSize) s"

text \<open>The shifting loop of \<^verbatim>\<open>nwEEPROMResetEventSetNew\<close>: \<^verbatim>\<open>for( int i=count ; i>0 ; --i )\<close>.\<close>

function shift_loop :: "cint \<Rightarrow> nvm \<Rightarrow> nvm" where
  "shift_loop i s =
     (if 0 <s i
      then (case nwEEPROMResetEventGet (i - 1) s of
              (ev_temp, s1) \<Rightarrow> shift_loop (i - 1) (nwEEPROMResetEventSet ev_temp i s1))
      else s)"
  by pat_completeness auto
termination
proof (relation "measure (\<lambda>(i, s). nat (sint i))")
  show "wf (measure (\<lambda>(i, s). nat (sint i)))"
    by simp
next
  fix i :: cint and s :: nvm and x :: "nwEvent \<times> nvm" and ev_temp s1
  assume pos: "0 <s i"
  have "sint (i - 1) = sint i - 1"
    using pos sint_lt [of i] sint_ge [of i]
    by (simp add: word_sless_alt sint_word_ariths signed_take_bit_int_eq_self_iff)
  then show "((i - 1, nwEEPROMResetEventSet ev_temp i s1), (i, s)) \<in> measure (\<lambda>(i, s). nat (sint i))"
    using pos by (simp add: word_sless_alt)
qed

definition nwEEPROMResetEventSetNew :: "nwEvent \<Rightarrow> cint \<Rightarrow> nvm \<Rightarrow> nvm" where
  "nwEEPROMResetEventSetNew ev index s =
     (case nwEEPROMResetEventCountGet s of
        (count, s1) \<Rightarrow>
          let count1 = (if count = NW_MAX_RESET_EVENT then count - 1 else count);
              s2 = shift_loop count1 s1;
              s3 = nwEEPROMResetEventSet ev 0 s2
          in EEPROM_put (of_nat nwResetCountAdr) (int_bytes (count1 + 1)) s3)"

section \<open>Observations used in the statements\<close>

text \<open>The \<open>n\<close> bytes stored from address \<open>a\<close> on.\<close>

definition stored_bytes :: "nvm \<Rightarrow> cint \<Rightarrow> nat \<Rightarrow> byte list" where
  "stored_bytes s a n = map (\<lambda>k. cells s (a + of_nat k)) [0..<n]"

text \<open>The bytes of ring slot \<open>i\<close>, at the address \<^verbatim>\<open>nwResetEventAdr + i*nwEventStrSize\<close>.\<close>

definition slot_bytes :: "nvm \<Rightarrow> cint \<Rightarrow> byte list" where
  "slot_bytes s i = stored_bytes s (of_nat nwResetEventAdr + i * of_nat nwEventStrSize) nwEventStrSize"

text \<open>The erased store: every cell reads \<^verbatim>\<open>0xFF\<close>.\<close>

definition erased_nvm :: nvm where
  "erased_nvm = \<lparr>cells = (\<lambda>a. 0xFF), accessed = []\<rparr>"

text \<open>A version field is null-terminated when it has 32 bytes and one of them is null.\<close>

definition null_terminated :: "byte list \<Rightarrow> bool" where
  "null_terminated v = (length v = nwVersionSize \<and> 0 \<in> set v)"

text \<open>The four members of an event, as a tuple.\<close>

definition event_tuple :: "nwEvent \<Rightarrow> byte list \<times> time_t \<times> cint \<times> bool" where
  "event_tuple e = (ev_version e, ev_time e, ev_reason e, ev_ack e)"

text \<open>The count after the saturation test of \<^verbatim>\<open>nwEEPROMResetEventSetNew\<close>.\<close>

definition shift_count :: "nvm \<Rightarrow> cint" where
  "shift_count s = (if fst (nwEEPROMResetEventCountGet s) = NW_MAX_RESET_EVENT
               then fst (nwEEPROMResetEventCountGet s) - 1
               else fst (nwEEPROMResetEventCountGet s))"

text \<open>A store that holds the count 2 and null bytes elsewhere.\<close>

definition nvm_two :: nvm where
  "nvm_two = \<lparr>cells = (\<lambda>a. if a = 37 then 2 else 0), accessed = []\<rparr>"

text \<open>The addresses of a serialized event stored at \<open>adr\<close>.\<close>

definition event_region :: "nat \<Rightarrow> nat set" where
  "event_region adr = {adr ..< adr + nwEventStrSize}"

text \<open>
  The addresses of the log: the initialization event, the count and the
  \<^verbatim>\<open>NW_MAX_RESET_EVENT\<close> slots of the ring.
\<close>

definition log_region :: "nat set" where
  "log_region =
     event_region nwInitEventAdr \<union> {nwResetCountAdr ..< nwResetCountAdr + sizeof_int} \<union>
     (\<Union>i \<in> {0 ..< unat NW_MAX_RESET_EVENT}. event_region (nwResetEventAdr + i * nwEventStrSize))"

text \<open>
  Acknowledging the entry of slot \<open>i\<close> in place: the slot is read with
  \<^verbatim>\<open>nwEEPROMResetEventGet\<close>, the event is acknowledged and written back with
  \<^verbatim>\<open>nwEEPROMResetEventSet\<close>.
\<close>

definition acknowledge_slot :: "cint \<Rightarrow> nvm \<Rightarrow> nvm" where
  "acknowledge_slot i s =
     (case nwEEPROMResetEventGet i s of
        (ev, s1) \<Rightarrow> nwEEPROMResetEventSet (acknowledge ev True) i s1)"

text \<open>A store that holds the count 11 and null bytes elsewhere.\<close>

definition nvm_eleven :: nvm where
  "nvm_eleven = \<lparr>cells = (\<lambda>a. if a = 37 then 11 else 0), accessed = []\<rparr>"

section \<open>Bytes, words and bits\<close>

lemma int_of_bytes_int_bytes: "int_of_bytes (int_bytes w) = w"
  unfolding int_of_bytes_def int_bytes_def
  by (rule bit_word_eqI) (auto simp: bit_simps)

lemma time_of_bytes_time_bytes: "time_of_bytes (time_bytes w) = w"
proof (rule bit_word_eqI)
  fix n :: nat
  assume "n < LENGTH(32)"
  then have "n < 8 \<or> (\<exists>m<8. n = 8 + m) \<or> (\<exists>m<8. n = 16 + m) \<or> (\<exists>m<8. n = 24 + m)"
    by (simp, presburger)
  then show "bit (time_of_bytes (time_bytes w)) n = bit w n"
    by (elim disjE exE conjE) (simp_all add: time_of_bytes_def time_bytes_def bit_simps)
qed

lemma byte_bit_high: "bit (b :: byte) n \<Longrightarrow> n < 8"
  using bit_imp_le_length [of b n] by simp

lemma byte_bit_off [simp]:
  "\<not> bit (b :: byte) (8 + n)" "\<not> bit (b :: byte) (16 + n)" "\<not> bit (b :: byte) (24 + n)"
  using byte_bit_high [of b] by fastforce+

lemma time_bytes_time_of_bytes:
  "time_bytes (time_of_bytes [a, b, c, d]) = [a, b, c, d]"
proof -
  have "ucast (time_of_bytes [a, b, c, d]) = a"
    by (rule bit_word_eqI) (simp add: time_of_bytes_def bit_simps)
  moreover have "ucast (drop_bit 8 (time_of_bytes [a, b, c, d])) = b"
    by (rule bit_word_eqI) (simp add: time_of_bytes_def bit_simps)
  moreover have "ucast (drop_bit 16 (time_of_bytes [a, b, c, d])) = c"
    by (rule bit_word_eqI) (simp add: time_of_bytes_def bit_simps)
  moreover have "ucast (drop_bit 24 (time_of_bytes [a, b, c, d])) = d"
    by (rule bit_word_eqI) (simp add: time_of_bytes_def bit_simps)
  ultimately show ?thesis
    by (simp add: time_bytes_def)
qed

lemma drop7_byte: "drop_bit 7 (ucast (b :: byte) :: cint) = of_bool (bit b 7)"
proof (rule bit_word_eqI)
  fix n :: nat
  assume "n < LENGTH(16)"
  show "bit (drop_bit 7 (ucast b :: cint)) n = bit (of_bool (bit b 7) :: cint) n"
  proof (cases n)
    case 0
    then show ?thesis by (simp add: bit_simps)
  next
    case (Suc m)
    have "\<not> bit b (8 + m)" by simp
    then show ?thesis using Suc by (simp add: bit_simps)
  qed
qed

lemma ack_bit: "(drop_bit 7 (ucast (b :: byte) :: cint) \<noteq> 0) = bit b 7"
  by (simp add: drop7_byte)

lemma bit_0x80: "bit (0x80 :: int) n = (n = 7)"
proof -
  have e: "(0x80 :: int) = 2 ^ 7" by simp
  show ?thesis unfolding e by (simp only: bit_exp_iff) simp
qed

lemma bit_0x7F: "bit (0x7F :: int) n = (n < 7)"
proof -
  have e: "(0x7F :: int) = mask 7" by (simp add: mask_eq_exp_minus_1)
  show ?thesis unfolding e by (simp only: bit_mask_iff) simp
qed

lemma pack_unpack:
  "ucast (ucast b AND 0x7F :: cint) OR (if drop_bit 7 (ucast b :: cint) \<noteq> 0 then 0x80 else 0)
     = (b::byte)"
  unfolding ack_bit
proof (rule bit_word_eqI)
  fix n :: nat
  assume "n < LENGTH(8)"
  then have "n < 7 \<or> n = 7" by auto
  then show "bit (ucast ((ucast b :: cint) AND 0x7F) OR (if bit b 7 then 0x80 else 0) :: byte) n
      = bit b n"
    by (auto simp: bit_simps bit_0x80 bit_0x7F)
qed

lemma unpack_reason:
  "ucast (ucast (r::cint) OR (if a then 0x80 else 0) :: byte) AND 0x7F = (r AND 0x7F :: cint)"
  by (rule bit_word_eqI) (auto simp: bit_simps bit_0x80 bit_0x7F)

lemma unpack_ack:
  "(drop_bit 7 (ucast (ucast (r::cint) OR (if a then 0x80 else 0) :: byte) :: cint) \<noteq> 0)
     = (a \<or> bit r 7)"
  unfolding ack_bit by (simp add: bit_simps bit_0x80)

section \<open>The store: what a get returns and what a put leaves\<close>

lemma cells_EERef_update: "cells (EERef_update a b s) = (cells s)(a := b)"
  by (auto simp: EERef_update_def eeprom_read_byte_def eeprom_write_byte_def)

lemma set_accessed_EERef_update:
  "set (accessed (EERef_update a b s)) = insert a (set (accessed s))"
  by (auto simp: EERef_update_def eeprom_read_byte_def eeprom_write_byte_def)

lemma stored_bytes_Suc:
  "stored_bytes s a (Suc n) = cells s a # stored_bytes s (a + 1) n"
  unfolding stored_bytes_def
  by (simp add: map_upt_Suc add.assoc del: upt_Suc)

lemma stored_bytes_cong: "cells s = cells s' \<Longrightarrow> stored_bytes s a n = stored_bytes s' a n"
  by (simp add: stored_bytes_def)

lemma length_stored_bytes: "length (stored_bytes s a n) = n"
  by (simp add: stored_bytes_def)

lemma fst_EEPROM_get: "fst (EEPROM_get idx n s) = stored_bytes s idx n"
proof (induction n arbitrary: idx s)
  case 0
  show ?case by (simp add: stored_bytes_def)
next
  case (Suc n)
  have "stored_bytes (s\<lparr>accessed := idx # accessed s\<rparr>) (idx + 1) n = stored_bytes s (idx + 1) n"
    by (simp add: stored_bytes_def)
  then show ?case
    using Suc [of "idx + 1" "s\<lparr>accessed := idx # accessed s\<rparr>"]
    by (simp add: stored_bytes_Suc eeprom_read_byte_def split_beta)
qed

lemma cells_EEPROM_get: "cells (snd (EEPROM_get idx n s)) = cells s"
proof (induction n arbitrary: idx s)
  case 0
  show ?case by simp
next
  case (Suc n)
  show ?case
    using Suc [of "idx + 1" "s\<lparr>accessed := idx # accessed s\<rparr>"]
    by (simp add: eeprom_read_byte_def split_beta)
qed

lemma unat_sub_cases:
  "unat ((a::cint) - b) = (if unat b \<le> unat a then unat a - unat b else 65536 + unat a - unat b)"
  using unat_sub_if' [of a b] by auto

lemma unat_sub_Suc: "a \<noteq> idx \<Longrightarrow> unat ((a::cint) - (idx + 1)) = unat (a - idx) - 1"
proof -
  assume "a \<noteq> idx"
  then have "a - idx \<noteq> 0" by simp
  then have "unat ((a - idx) - 1) = unat (a - idx) - 1" by (rule unat_minus_one)
  then show ?thesis by (simp add: diff_diff_eq)
qed

lemma cells_EEPROM_put:
  "length bs \<le> 65536 \<Longrightarrow>
   cells (EEPROM_put idx bs s) a =
     (if unat (a - idx) < length bs then bs ! unat (a - idx) else cells s a)"
proof (induction bs arbitrary: idx s)
  case Nil
  show ?case by simp
next
  case (Cons b bs)
  have len: "length bs \<le> 65535" using Cons.prems by simp
  have IH: "cells (EEPROM_put (idx + 1) bs (EERef_update idx b s)) a =
     (if unat (a - (idx + 1)) < length bs then bs ! unat (a - (idx + 1))
      else cells (EERef_update idx b s) a)"
    using Cons.IH [of "idx + 1" "EERef_update idx b s"] len by simp
  show ?case
  proof (cases "a = idx")
    case True
    have "unat (- 1 :: cint) = 65535"
      by (simp add: unsigned_minus_1_eq_mask mask_eq_exp_minus_1)
    then have "unat (idx - (idx + 1)) = 65535" by simp
    then show ?thesis
      using IH len True by (simp add: cells_EERef_update)
  next
    case False
    then have nz: "unat (a - idx) \<noteq> 0"
      by (simp add: unat_eq_0)
    have dec: "unat (a - (idx + 1)) = unat (a - idx) - 1"
      using False by (rule unat_sub_Suc)
    have "cells (EERef_update idx b s) a = cells s a"
      using False by (simp add: cells_EERef_update)
    with IH dec nz show ?thesis
      by (cases "unat (a - idx)") auto
  qed
qed

section \<open>Serialization of an event\<close>

lemma length_time_bytes: "length (time_bytes w) = 4"
  by (simp add: time_bytes_def)

lemma length_nwEventStr_bytes: "length (nwEventStr_bytes e) = nwEventStrSize"
  by (simp add: nwEventStr_bytes_def nwEventStrSize_def sizeof_time_t_def sizeof_byte_def
      length_time_bytes)

lemma nwEventStrSize_37: "nwEventStrSize = 37"
  by (simp add: nwEventStrSize_def nwVersionSize_def sizeof_time_t_def sizeof_byte_def)

lemma list4: "length t = 4 \<Longrightarrow> \<exists>a b c d. t = [a, b, c, d]"
  by (auto simp: eval_nat_numeral length_Suc_conv)

lemma split37:
  "length bs = 37 \<Longrightarrow> bs = take 32 bs @ take 4 (drop 32 bs) @ [bs ! 36]"
proof -
  assume l: "length bs = 37"
  have "drop 36 bs = bs ! 36 # drop (Suc 36) bs"
    using l by (intro Cons_nth_drop_Suc [symmetric]) simp
  then have d: "drop 36 bs = [bs ! 36]" using l by simp
  have "bs = take 32 bs @ drop 32 bs" by simp
  also have "drop 32 bs = take 4 (drop 32 bs) @ drop 4 (drop 32 bs)"
    by (simp only: append_take_drop_id)
  also have "drop 4 (drop 32 bs) = [bs ! 36]" using d by simp
  finally show ?thesis .
qed

lemma map_nth_version:
  "length v = nwVersionSize \<Longrightarrow> map (\<lambda>i. v ! i) [0..<nwVersionSize] = v"
  using map_nth [of v] by simp

lemma bytes_roundtrip:
  assumes "length bs = nwEventStrSize"
  shows "nwEventStr_bytes (nwEvent_to_str (nwEvent_of_str (nwEventStr_of_bytes bs))) = bs"
proof -
  have l: "length bs = 37" using assms by (simp add: nwEventStrSize_37)
  define v where "v = take 32 bs"
  define t where "t = take 4 (drop 32 bs)"
  define b where "b = bs ! 36"
  have lv: "length v = nwVersionSize" and lt: "length t = 4"
    using l by (simp_all add: v_def t_def nwVersionSize_def)
  have split: "bs = v @ t @ [b]"
    using split37 [OF l] by (simp only: v_def t_def b_def)
  obtain t0 t1 t2 t3 where t: "t = [t0, t1, t2, t3]"
    using list4 [OF lt] by blast
  have of_bytes: "nwEventStr_of_bytes bs = \<lparr>str_version = v, str_time = time_of_bytes t, str_ack_reason = b\<rparr>"
    by (simp add: nwEventStr_of_bytes_def nwVersionSize_def sizeof_time_t_def v_def t_def b_def)
  have "nwEvent_to_str (nwEvent_of_str (nwEventStr_of_bytes bs))
      = \<lparr>str_version = v, str_time = time_of_bytes t, str_ack_reason = b\<rparr>"
    unfolding of_bytes nwEvent_of_str_def nwEvent_to_str_def
    by (simp add: map_nth_version [OF lv] pack_unpack del: upt_rec_numeral)
  then have "nwEventStr_bytes (nwEvent_to_str (nwEvent_of_str (nwEventStr_of_bytes bs)))
      = v @ t @ [b]"
    by (simp add: nwEventStr_bytes_def map_nth_version [OF lv] t time_bytes_time_of_bytes
        del: upt_rec_numeral)
  then show ?thesis using split by simp
qed


lemma of_bytes_bytes:
  "nwEventStr_of_bytes (nwEventStr_bytes x) =
     \<lparr>str_version = map (\<lambda>i. str_version x ! i) [0..<nwVersionSize],
      str_time = str_time x, str_ack_reason = str_ack_reason x\<rparr>"
proof -
  define v where "v = map (\<lambda>i. str_version x ! i) [0..<nwVersionSize]"
  define t where "t = time_bytes (str_time x)"
  have lv: "length v = nwVersionSize" by (simp add: v_def)
  have lt: "length t = sizeof_time_t" by (simp add: t_def length_time_bytes sizeof_time_t_def)
  have b: "nwEventStr_bytes x = v @ t @ [str_ack_reason x]"
    by (simp add: nwEventStr_bytes_def v_def t_def)
  have "take nwVersionSize (v @ t @ [str_ack_reason x]) = v"
    using lv by simp
  moreover have "take sizeof_time_t (drop nwVersionSize (v @ t @ [str_ack_reason x])) = t"
    using lv lt by simp
  moreover have "(v @ t @ [str_ack_reason x]) ! (nwVersionSize + sizeof_time_t) = str_ack_reason x"
    using lv lt by (simp add: nth_append)
  ultimately show ?thesis
    unfolding b nwEventStr_of_bytes_def
    by (simp add: v_def t_def time_of_bytes_time_bytes)
qed

lemma record_roundtrip:
  "nwEvent_of_str (nwEventStr_of_bytes (nwEventStr_bytes (nwEvent_to_str e))) =
     \<lparr>ev_version = map (\<lambda>i. ev_version e ! i) [0..<nwVersionSize],
      ev_time = ev_time e,
      ev_reason = ev_reason e AND 0x7F,
      ev_ack = (ev_ack e \<or> bit (ev_reason e) 7)\<rparr>"
  unfolding of_bytes_bytes
  by (simp add: nwEvent_of_str_def nwEvent_to_str_def unpack_reason unpack_ack
      del: upt_rec_numeral cong: map_cong)

lemma fst_readFromEEPROM:
  "fst (readFromEEPROM adr s) = nwEvent_of_str (nwEventStr_of_bytes (stored_bytes s adr nwEventStrSize))"
  using fst_EEPROM_get [of adr nwEventStrSize s]
  by (simp add: readFromEEPROM_def split_beta)

lemma cells_readFromEEPROM: "cells (snd (readFromEEPROM adr s)) = cells s"
  using cells_EEPROM_get [of adr nwEventStrSize s]
  by (simp add: readFromEEPROM_def split_beta)

lemma cells_writeToEEPROM:
  "cells (writeToEEPROM e adr s) a =
     (if unat (a - adr) < nwEventStrSize
      then nwEventStr_bytes (nwEvent_to_str e) ! unat (a - adr) else cells s a)"
  unfolding writeToEEPROM_def
  using cells_EEPROM_put [of "nwEventStr_bytes (nwEvent_to_str e)" adr s a]
  by (simp add: length_nwEventStr_bytes nwEventStrSize_37)

lemma cells_put_stored:
  assumes "n \<le> 65536" and "cells s' = cells s"
  shows "cells (EEPROM_put idx (stored_bytes s idx n) s') = cells s"
proof
  fix a
  have "unat (a - idx) < n \<Longrightarrow> stored_bytes s idx n ! unat (a - idx) = cells s a"
    by (simp add: stored_bytes_def)
  then show "cells (EEPROM_put idx (stored_bytes s idx n) s') a = cells s a"
    using cells_EEPROM_put [of "stored_bytes s idx n" idx s' a] assms
    by (simp add: length_stored_bytes)
qed

lemma unat_of_nat_cint: "n < 65536 \<Longrightarrow> unat (of_nat n :: cint) = n"
  by (simp add: unat_of_nat)

lemma stored_bytes_put_same:
  assumes "length bs \<le> 65536"
  shows "stored_bytes (EEPROM_put idx bs s) idx (length bs) = bs"
proof (rule nth_equalityI)
  show "length (stored_bytes (EEPROM_put idx bs s) idx (length bs)) = length bs"
    by (simp add: length_stored_bytes)
next
  fix k
  assume "k < length (stored_bytes (EEPROM_put idx bs s) idx (length bs))"
  then have k: "k < length bs" by (simp add: length_stored_bytes)
  then have "unat (of_nat k :: cint) = k"
    using assms by (simp add: unat_of_nat_cint)
  then show "stored_bytes (EEPROM_put idx bs s) idx (length bs) ! k = bs ! k"
    using k cells_EEPROM_put [OF assms, of idx s "idx + of_nat k"]
    by (simp add: stored_bytes_def)
qed

lemma stored_bytes_writeToEEPROM:
  "stored_bytes (writeToEEPROM e adr s) adr nwEventStrSize = nwEventStr_bytes (nwEvent_to_str e)"
  unfolding writeToEEPROM_def
  using stored_bytes_put_same [of "nwEventStr_bytes (nwEvent_to_str e)" adr s]
  by (simp add: length_nwEventStr_bytes nwEventStrSize_37)

lemma read_after_write:
  "fst (readFromEEPROM adr (writeToEEPROM e adr s)) =
     \<lparr>ev_version = map (\<lambda>i. ev_version e ! i) [0..<nwVersionSize],
      ev_time = ev_time e,
      ev_reason = ev_reason e AND 0x7F,
      ev_ack = (ev_ack e \<or> bit (ev_reason e) 7)\<rparr>"
  by (simp only: fst_readFromEEPROM stored_bytes_writeToEEPROM record_roundtrip)

lemma length_copy_version: "length (copy_version cs i v) = length v"
  by (induction cs i v rule: copy_version.induct) simp_all

lemma copy_version_untouched:
  "i + length cs \<le> k \<Longrightarrow> copy_version cs i v ! k = v ! k"
  by (induction cs i v rule: copy_version.induct) simp_all

lemma length_nwVersionString: "length nwVersionString = 22"
  by (simp add: nwVersionString_def)

lemma length_version_setup: "length (ev_version (nwEvent_setup now)) = nwVersionSize"
  by (simp add: nwEvent_setup_def length_copy_version)

lemma last_byte_written:
  "nwEventStr_bytes (nwEvent_to_str e) ! 36 = ucast (ev_reason e) OR (if ev_ack e then 0x80 else 0)"
proof -
  define v where "v = map (\<lambda>i. ev_version e ! i) [0..<nwVersionSize]"
  have lv: "length v = 32" by (simp add: v_def nwVersionSize_def del: upt_rec_numeral)
  have "nwEventStr_bytes (nwEvent_to_str e) =
      v @ time_bytes (ev_time e) @ [ucast (ev_reason e) OR (if ev_ack e then 0x80 else 0)]"
    by (simp add: nwEventStr_bytes_def nwEvent_to_str_def v_def del: upt_rec_numeral cong: map_cong)
  then show ?thesis
    using lv by (simp add: nth_append length_time_bytes)
qed

lemma packed_byte_iff:
  "(ucast (r :: cint) OR (if a then 0x80 else 0) = (push_bit 7 (of_bool a) OR ucast (r AND 0x7F) :: byte))
     = (a \<or> \<not> bit r 7)"
proof -
  have "(ucast r OR (if a then 0x80 else 0) = (push_bit 7 (of_bool a) OR ucast (r AND 0x7F) :: byte))
      = (\<forall>n<8. bit (ucast r OR (if a then 0x80 else 0) :: byte) n
               = bit (push_bit 7 (of_bool a) OR ucast (r AND 0x7F) :: byte) n)"
    by (auto simp: bit_eq_iff dest: byte_bit_high)
  also have "\<dots> = (\<forall>n<8. (bit r n \<or> (a \<and> n = 7)) = ((a \<and> n = 7) \<or> (bit r n \<and> n < 7)))"
    by (auto simp: bit_simps bit_0x80 bit_0x7F)
  also have "\<dots> = (a \<or> \<not> bit r 7)"
    by (auto simp: less_Suc_eq eval_nat_numeral)
  finally show ?thesis .
qed

lemma null_terminated_setup: "null_terminated (ev_version (nwEvent_setup now))"
proof -
  let ?v = "copy_version nwVersionString 0 (replicate nwVersionSize 0)"
  have l: "length ?v = 32" by (simp add: length_copy_version nwVersionSize_def)
  have "?v ! 31 = replicate nwVersionSize 0 ! 31"
    by (rule copy_version_untouched) (simp add: length_nwVersionString)
  then have "?v ! 31 = 0" by (simp add: nwVersionSize_def)
  moreover have "?v ! 31 \<in> set ?v" using l by (intro nth_mem) simp
  ultimately have "0 \<in> set ?v" by simp
  then show ?thesis
    using l by (simp add: null_terminated_def nwEvent_setup_def nwVersionSize_def)
qed

lemma ev_version_read:
  "ev_version (fst (readFromEEPROM adr s)) = stored_bytes s adr nwVersionSize"
proof -
  have "take nwVersionSize (stored_bytes s adr nwEventStrSize) = stored_bytes s adr nwVersionSize"
    by (simp add: stored_bytes_def nwEventStrSize_def take_map)
  then have "str_version (nwEventStr_of_bytes (stored_bytes s adr nwEventStrSize))
      = stored_bytes s adr nwVersionSize"
    by (simp add: nwEventStr_of_bytes_def)
  then show ?thesis
    by (simp add: fst_readFromEEPROM nwEvent_of_str_def map_nth_version length_stored_bytes
        del: upt_rec_numeral)
qed

section \<open>Addresses and the shifting loop\<close>

lemma in_range_iff:
  assumes "m + k \<le> 65536" and "0 < k"
  shows "(unat (a - of_nat m :: cint) < k) = (m \<le> unat a \<and> unat a < m + k)"
proof -
  have m: "unat (of_nat m :: cint) = m"
    using assms by (simp add: unat_of_nat_cint)
  have "unat a < 65536" using unsigned_less [of a] by simp
  then show ?thesis
    using assms unfolding unat_sub_cases m by auto
qed

lemma unat_minus_const:
  assumes "m \<le> unat (a :: cint)"
  shows "unat (a - of_nat m) = unat a - m"
proof -
  have "unat a < 65536" using unsigned_less [of a] by simp
  then have m: "unat (of_nat m :: cint) = m"
    using assms by (simp add: unat_of_nat_cint)
  show ?thesis using assms unfolding unat_sub_cases m by simp
qed

lemma slot_adr_of_nat:
  "of_nat nwResetEventAdr + of_nat n * of_nat nwEventStrSize = (of_nat (39 + 37 * n) :: cint)"
  by (simp add: nwResetEventAdr_def nwResetCountAdr_def nwInitEventAdr_def nwEventStrSize_37
      sizeof_int_def)

lemma stored_bytes_eqI:
  "(\<And>j. j < n \<Longrightarrow> cells s (a + of_nat j) = cells s' (b + of_nat j)) \<Longrightarrow>
   stored_bytes s a n = stored_bytes s' b n"
  by (simp add: stored_bytes_def)

lemma stored_bytes_nth: "j < n \<Longrightarrow> stored_bytes s a n ! j = cells s (a + of_nat j)"
  by (simp add: stored_bytes_def)

text \<open>One step of the loop copies the 37 bytes of a slot to another place.\<close>

lemma cells_copy_step:
  "cells (writeToEEPROM (fst (readFromEEPROM src s)) dst (snd (readFromEEPROM src s))) a =
     (if unat (a - dst) < nwEventStrSize then cells s (src + (a - dst)) else cells s a)"
proof -
  have "nwEventStr_bytes (nwEvent_to_str (fst (readFromEEPROM src s)))
      = stored_bytes s src nwEventStrSize"
    by (simp add: fst_readFromEEPROM bytes_roundtrip length_stored_bytes)
  then show ?thesis
    by (simp add: cells_writeToEEPROM cells_readFromEEPROM stored_bytes_nth)
qed

lemma cells_slot_copy:
  "cells (nwEEPROMResetEventSet (fst (nwEEPROMResetEventGet (i - 1) s)) i
            (snd (nwEEPROMResetEventGet (i - 1) s))) a =
     (if unat (a - (of_nat nwResetEventAdr + i * of_nat nwEventStrSize)) < nwEventStrSize
      then cells s (a - 37) else cells s a)"
proof -
  have "of_nat nwResetEventAdr + (i - 1) * of_nat nwEventStrSize +
          (a - (of_nat nwResetEventAdr + i * of_nat nwEventStrSize)) = a - (37 :: cint)"
    by (simp add: nwEventStrSize_37 algebra_simps)
  then show ?thesis
    by (simp only: nwEEPROMResetEventSet_def nwEEPROMResetEventGet_def cells_copy_step)
qed

lemma sint_of_nat_cint: "k < 32768 \<Longrightarrow> sint (of_nat k :: cint) = int k"
  by (simp add: signed_of_nat signed_take_bit_int_eq_self)

lemma sless_of_nat: "0 < k \<Longrightarrow> k < 32768 \<Longrightarrow> 0 <s (of_nat k :: cint)"
  by (simp add: word_sless_alt sint_of_nat_cint)

lemma small_count_of_nat:
  assumes "0 \<le>s (c :: cint)" and "c \<le>s 10"
  shows "\<exists>n\<le>10. c = of_nat n"
proof -
  have "0 \<le> sint c" "sint c \<le> 10"
    using assms by (simp_all add: word_sle_eq)
  then have "c = of_nat (nat (sint c))" "nat (sint c) \<le> 10"
    by simp_all
  then show ?thesis by blast
qed

lemma shift_loop_Suc:
  assumes "Suc n < 32768"
  shows "shift_loop (of_nat (Suc n)) s =
     shift_loop (of_nat n)
       (nwEEPROMResetEventSet (fst (nwEEPROMResetEventGet (of_nat (Suc n) - 1) s)) (of_nat (Suc n))
          (snd (nwEEPROMResetEventGet (of_nat (Suc n) - 1) s)))"
proof -
  have "0 <s (of_nat (Suc n) :: cint)"
    using assms by (intro sless_of_nat) simp_all
  then show ?thesis
    by (subst shift_loop.simps) (simp add: split_beta)
qed

lemma shift_loop_nonpos: "\<not> 0 <s i \<Longrightarrow> shift_loop i s = s"
  by (subst shift_loop.simps) simp

lemma cells_slot_copy_nat:
  assumes "k \<le> 1000"
  shows "cells (nwEEPROMResetEventSet (fst (nwEEPROMResetEventGet (of_nat k - 1) s)) (of_nat k)
            (snd (nwEEPROMResetEventGet (of_nat k - 1) s))) x =
     (if 39 + 37 * k \<le> unat x \<and> unat x < 39 + 37 * k + 37 then cells s (x - 37) else cells s x)"
proof -
  have "(unat (x - (of_nat (39 + 37 * k) :: cint)) < 37)
      = (39 + 37 * k \<le> unat x \<and> unat x < 39 + 37 * k + 37)"
    using assms by (intro in_range_iff) simp_all
  then show ?thesis
    by (simp only: cells_slot_copy slot_adr_of_nat) (simp only: nwEventStrSize_37)
qed

lemma cells_shift_loop:
  "n \<le> 9 \<Longrightarrow>
   cells (shift_loop (of_nat n) s) a =
     (if 76 \<le> unat a \<and> unat a < 76 + 37 * n then cells s (a - 37) else cells s a)"
proof (induction n arbitrary: s a)
  case 0
  show ?case by (auto simp add: shift_loop_nonpos)
next
  case (Suc n)
  let ?s1 = "nwEEPROMResetEventSet (fst (nwEEPROMResetEventGet (of_nat (Suc n) - 1) s))
     (of_nat (Suc n)) (snd (nwEEPROMResetEventGet (of_nat (Suc n) - 1) s))"
  have n: "n \<le> 9" "Suc n < 32768" "Suc n \<le> 1000" using Suc.prems by simp_all
  have step: "\<And>x. cells ?s1 x =
      (if 39 + 37 * Suc n \<le> unat x \<and> unat x < 39 + 37 * Suc n + 37
       then cells s (x - 37) else cells s x)"
    by (rule cells_slot_copy_nat [OF n(3)])
  have IH: "cells (shift_loop (of_nat n) ?s1) a =
     (if 76 \<le> unat a \<and> unat a < 76 + 37 * n then cells ?s1 (a - 37) else cells ?s1 a)"
    using Suc.IH [OF n(1)] .
  have sub: "37 \<le> unat a \<Longrightarrow> unat (a - 37) = unat a - 37"
    using unat_minus_const [of 37 a] by simp
  show ?case
    unfolding shift_loop_Suc [OF n(2)] IH step
    using sub by auto
qed

lemma fst_CountGet:
  "fst (nwEEPROMResetEventCountGet s) = int_of_bytes (stored_bytes s (of_nat nwResetCountAdr) sizeof_int)"
  using fst_EEPROM_get [of "of_nat nwResetCountAdr" sizeof_int s]
  by (simp add: nwEEPROMResetEventCountGet_def split_beta)

lemma cells_CountGet: "cells (snd (nwEEPROMResetEventCountGet s)) = cells s"
  using cells_EEPROM_get [of "of_nat nwResetCountAdr" sizeof_int s]
  by (simp add: nwEEPROMResetEventCountGet_def split_beta)

lemma nwResetCountAdr_37: "nwResetCountAdr = 37"
  by (simp add: nwResetCountAdr_def nwInitEventAdr_def nwEventStrSize_37)

lemma nwResetEventAdr_39: "nwResetEventAdr = 39"
  by (simp add: nwResetEventAdr_def nwResetCountAdr_37 sizeof_int_def)

lemma length_int_bytes: "length (int_bytes w) = 2"
  by (simp add: int_bytes_def)

lemma SetNew_unfold:
  "nwEEPROMResetEventSetNew ev index s =
     EEPROM_put (of_nat nwResetCountAdr) (int_bytes (shift_count s + 1))
       (nwEEPROMResetEventSet ev 0 (shift_loop (shift_count s) (snd (nwEEPROMResetEventCountGet s))))"
  by (simp add: nwEEPROMResetEventSetNew_def shift_count_def split_beta Let_def)

lemma cells_SetNew:
  "cells (nwEEPROMResetEventSetNew ev index s) a =
     (if 37 \<le> unat a \<and> unat a < 37 + 2 then int_bytes (shift_count s + 1) ! (unat a - 37)
      else if 39 \<le> unat a \<and> unat a < 39 + 37
        then nwEventStr_bytes (nwEvent_to_str ev) ! (unat a - 39)
      else cells (shift_loop (shift_count s) (snd (nwEEPROMResetEventCountGet s))) a)"
proof -
  have r1: "(unat (a - (of_nat 37 :: cint)) < 2) = (37 \<le> unat a \<and> unat a < 37 + 2)"
    by (intro in_range_iff) simp_all
  have r2: "(unat (a - (of_nat 39 :: cint)) < 37) = (39 \<le> unat a \<and> unat a < 39 + 37)"
    by (intro in_range_iff) simp_all
  have u1: "37 \<le> unat a \<Longrightarrow> unat (a - (of_nat 37 :: cint)) = unat a - 37"
    by (rule unat_minus_const)
  have u2: "39 \<le> unat a \<Longrightarrow> unat (a - (of_nat 39 :: cint)) = unat a - 39"
    by (rule unat_minus_const)
  have put: "cells (EEPROM_put (of_nat 37) (int_bytes (shift_count s + 1)) t) a =
      (if unat (a - of_nat 37) < 2 then int_bytes (shift_count s + 1) ! unat (a - of_nat 37)
       else cells t a)" for t
    using cells_EEPROM_put [of "int_bytes (shift_count s + 1)" "of_nat 37" t a]
    by (simp add: length_int_bytes)
  have set0: "cells (nwEEPROMResetEventSet ev 0 t) a =
      (if unat (a - of_nat 39) < 37 then nwEventStr_bytes (nwEvent_to_str ev) ! unat (a - of_nat 39)
       else cells t a)" for t
    by (simp add: nwEEPROMResetEventSet_def cells_writeToEEPROM nwResetEventAdr_39 nwEventStrSize_37)
  show ?thesis
    unfolding SetNew_unfold nwResetCountAdr_37 put set0 r1 r2
    using u1 u2 by auto
qed

lemma unat_adr_plus:
  "m + j < 65536 \<Longrightarrow> unat ((of_nat m :: cint) + of_nat j) = m + j"
  using unat_of_nat_cint [of "m + j"] by simp

lemma stored_count_after:
  "fst (nwEEPROMResetEventCountGet (nwEEPROMResetEventSetNew ev index s)) = shift_count s + 1"
proof -
  let ?s' = "nwEEPROMResetEventSetNew ev index s"
  have "stored_bytes ?s' (of_nat 37) 2 = [cells ?s' 37, cells ?s' 38]"
    by (simp add: stored_bytes_def eval_nat_numeral)
  also have "cells ?s' 37 = int_bytes (shift_count s + 1) ! 0"
    by (simp add: cells_SetNew)
  also have "cells ?s' 38 = int_bytes (shift_count s + 1) ! 1"
    by (simp add: cells_SetNew)
  finally have "stored_bytes ?s' (of_nat 37) 2 = int_bytes (shift_count s + 1)"
    by (simp add: int_bytes_def)
  then show ?thesis
    by (simp add: fst_CountGet nwResetCountAdr_37 sizeof_int_def int_of_bytes_int_bytes)
qed

lemma slot_bytes_of_nat:
  "slot_bytes s (of_nat k) = stored_bytes s (of_nat (39 + 37 * k)) 37"
  by (simp only: slot_bytes_def slot_adr_of_nat) (simp only: nwEventStrSize_37)

lemma slot0_after:
  "slot_bytes (nwEEPROMResetEventSetNew ev index s) 0 = nwEventStr_bytes (nwEvent_to_str ev)"
proof -
  let ?s' = "nwEEPROMResetEventSetNew ev index s"
  have "stored_bytes ?s' (of_nat 39) 37 = nwEventStr_bytes (nwEvent_to_str ev)"
  proof (rule nth_equalityI)
    show "length (stored_bytes ?s' (of_nat 39) 37) = length (nwEventStr_bytes (nwEvent_to_str ev))"
      by (simp add: length_stored_bytes length_nwEventStr_bytes nwEventStrSize_37)
  next
    fix j
    assume "j < length (stored_bytes ?s' (of_nat 39) 37)"
    then have j: "j < 37" by (simp add: length_stored_bytes)
    then have u: "unat ((of_nat 39 :: cint) + of_nat j) = 39 + j"
      by (intro unat_adr_plus) simp
    show "stored_bytes ?s' (of_nat 39) 37 ! j = nwEventStr_bytes (nwEvent_to_str ev) ! j"
      using j by (simp only: stored_bytes_nth cells_SetNew u) simp
  qed
  then show ?thesis
    using slot_bytes_of_nat [of ?s' 0] by simp
qed

lemma fst_ResetEventGet:
  "fst (nwEEPROMResetEventGet i s) = nwEvent_of_str (nwEventStr_of_bytes (slot_bytes s i))"
  by (simp add: nwEEPROMResetEventGet_def fst_readFromEEPROM slot_bytes_def)

lemma slot_shifted:
  assumes c: "shift_count s = of_nat m" and m: "m \<le> 9" and k: "1 \<le> k" "k \<le> m"
  shows "slot_bytes (nwEEPROMResetEventSetNew ev index s) (of_nat k) = slot_bytes s (of_nat (k - 1))"
proof -
  let ?s' = "nwEEPROMResetEventSetNew ev index s"
  have "stored_bytes ?s' (of_nat (39 + 37 * k)) 37 = stored_bytes s (of_nat (39 + 37 * (k - 1))) 37"
  proof (rule stored_bytes_eqI)
    fix j :: nat
    assume j: "j < 37"
    let ?a = "(of_nat (39 + 37 * k) :: cint) + of_nat j"
    have u: "unat ?a = 39 + 37 * k + j"
      using j k m by (intro unat_adr_plus) simp
    have e: "?a - 37 = of_nat (39 + 37 * (k - 1)) + of_nat j"
      using k by (cases k) (simp_all add: algebra_simps)
    have "cells ?s' ?a = cells s (?a - 37)"
      using j k m
      by (simp only: cells_SetNew u c cells_shift_loop [OF m] cells_CountGet) simp
    then show "cells ?s' ?a = cells s (of_nat (39 + 37 * (k - 1)) + of_nat j)"
      by (simp only: e)
  qed
  then show ?thesis by (simp only: slot_bytes_of_nat)
qed

lemma small_reason_mask7: "(r :: cint) \<le> 127 \<Longrightarrow> r AND mask 7 = r"
proof -
  assume "r \<le> 127"
  then have "r < 2 ^ 7" by (simp add: word_le_nat_alt word_less_nat_alt)
  then show ?thesis by (rule less_mask_eq)
qed

lemma small_reason_mask: "(r :: cint) \<le> 127 \<Longrightarrow> r AND 0x7F = r"
  using small_reason_mask7 [of r] by (simp add: mask_eq_exp_minus_1)

lemma small_reason_bit: "(r :: cint) \<le> 127 \<Longrightarrow> \<not> bit r 7"
proof -
  assume "r \<le> 127"
  then have "bit r 7 = bit (r AND mask 7) 7" by (simp only: small_reason_mask7)
  also have "\<dots> = False" by (simp only: bit_and_iff bit_mask_iff) simp
  finally show ?thesis by simp
qed

lemma roundtrip_wellformed:
  assumes "length (ev_version e) = nwVersionSize" and "ev_reason e \<le> 127"
  shows "nwEvent_of_str (nwEventStr_of_bytes (nwEventStr_bytes (nwEvent_to_str e))) = e"
  using assms
  by (simp add: record_roundtrip map_nth_version small_reason_mask small_reason_bit
      del: upt_rec_numeral)

lemma shift_count_small:
  assumes "fst (nwEEPROMResetEventCountGet s) = of_nat n" and "n \<le> 10"
  shows "shift_count s = of_nat (min n 9)"
proof (cases "n = 10")
  case True
  then show ?thesis using assms by (simp add: shift_count_def NW_MAX_RESET_EVENT_def)
next
  case False
  then have n: "n \<le> 9" using assms by simp
  then have "unat (of_nat n :: cint) = n" by (simp add: unat_of_nat_cint)
  moreover have "unat (10 :: cint) = 10" by simp
  ultimately have "(of_nat n :: cint) \<noteq> 10" using False by metis
  then show ?thesis using assms n by (simp add: shift_count_def NW_MAX_RESET_EVENT_def)
qed

lemma stored_bytes_2: "stored_bytes s a 2 = [cells s a, cells s (a + 1)]"
proof -
  have "stored_bytes s a (Suc (Suc 0)) = [cells s a, cells s (a + 1)]"
    by (simp only: stored_bytes_Suc) (simp add: stored_bytes_def)
  then show ?thesis by (simp add: numeral_2_eq_2)
qed

section \<open>The layout of the log\<close>

lemma ring_region:
  "(\<Union>i \<in> {0 ..< 10 :: nat}. {39 + i * 37 ..< 39 + i * 37 + 37}) = {39 ..< 409}"
proof (rule set_eqI)
  fix x :: nat
  show "(x \<in> (\<Union>i \<in> {0 ..< 10}. {39 + i * 37 ..< 39 + i * 37 + 37})) = (x \<in> {39 ..< 409})"
  proof
    assume "x \<in> (\<Union>i \<in> {0 ..< 10}. {39 + i * 37 ..< 39 + i * 37 + 37})"
    then show "x \<in> {39 ..< 409}" by auto
  next
    assume x: "x \<in> {39 ..< 409}"
    have "(x - 39) div 37 < 10" using x by auto
    moreover have "39 + ((x - 39) div 37) * 37 \<le> x" using x by auto
    moreover have "x < 39 + ((x - 39) div 37) * 37 + 37"
      using x div_mult_mod_eq [of "x - 39" 37] mod_less_divisor [of 37 "x - 39"] by linarith
    ultimately show "x \<in> (\<Union>i \<in> {0 ..< 10}. {39 + i * 37 ..< 39 + i * 37 + 37})"
      by auto
  qed
qed

lemma log_region_409: "log_region = {0 ..< 409}"
proof -
  have "log_region = {0 ..< 37} \<union> {37 ..< 39} \<union>
      (\<Union>i \<in> {0 ..< 10 :: nat}. {39 + i * 37 ..< 39 + i * 37 + 37})"
    by (simp add: log_region_def event_region_def nwInitEventAdr_def nwResetCountAdr_37
        nwResetEventAdr_39 nwEventStrSize_37 sizeof_int_def NW_MAX_RESET_EVENT_def)
  also have "\<dots> = {0 ..< 409}"
    unfolding ring_region by auto
  finally show ?thesis .
qed

section \<open>Acknowledging a slot in place\<close>

lemma index_of_nat:
  assumes "0 \<le>s (i :: cint)" and "i <s 10"
  shows "\<exists>k<10. i = of_nat k"
proof -
  have "0 \<le> sint i" "sint i < 10"
    using assms by (simp_all add: word_sle_eq word_sless_alt)
  then have "i = of_nat (nat (sint i))" "nat (sint i) < 10"
    by simp_all
  then show ?thesis by blast
qed

lemma length_version_read:
  "length (ev_version (fst (nwEEPROMResetEventGet i s))) = nwVersionSize"
  by (simp add: nwEEPROMResetEventGet_def ev_version_read length_stored_bytes)

lemma reason_read_masked:
  "ev_reason (fst (nwEEPROMResetEventGet i s)) AND 0x7F = ev_reason (fst (nwEEPROMResetEventGet i s))"
  by (simp add: fst_ResetEventGet nwEvent_of_str_def and.assoc)

lemma cells_acknowledge_slot:
  assumes "k < 10"
  shows "cells (acknowledge_slot (of_nat k) s) a =
     (if 39 + 37 * k \<le> unat a \<and> unat a < 39 + 37 * k + 37
      then nwEventStr_bytes (nwEvent_to_str (acknowledge (fst (nwEEPROMResetEventGet (of_nat k) s)) True))
             ! (unat a - (39 + 37 * k))
      else cells s a)"
proof -
  have r: "(unat (a - (of_nat (39 + 37 * k) :: cint)) < 37)
      = (39 + 37 * k \<le> unat a \<and> unat a < 39 + 37 * k + 37)"
    using assms by (intro in_range_iff) simp_all
  have u: "39 + 37 * k \<le> unat a \<Longrightarrow> unat (a - (of_nat (39 + 37 * k) :: cint)) = unat a - (39 + 37 * k)"
    by (rule unat_minus_const)
  have c: "cells (snd (nwEEPROMResetEventGet (of_nat k) s)) = cells s"
    by (simp add: nwEEPROMResetEventGet_def cells_readFromEEPROM)
  have "cells (acknowledge_slot (of_nat k) s) a =
     (if unat (a - (of_nat (39 + 37 * k) :: cint)) < 37
      then nwEventStr_bytes (nwEvent_to_str (acknowledge (fst (nwEEPROMResetEventGet (of_nat k) s)) True))
             ! unat (a - (of_nat (39 + 37 * k) :: cint))
      else cells s a)"
    unfolding acknowledge_slot_def split_beta nwEEPROMResetEventSet_def cells_writeToEEPROM c
    by (simp only: slot_adr_of_nat) (simp only: nwEventStrSize_37)
  then show ?thesis
    unfolding r using u by simp
qed

lemma read_acknowledged:
  "fst (nwEEPROMResetEventGet i (acknowledge_slot i s)) =
     (fst (nwEEPROMResetEventGet i s))\<lparr>ev_ack := True\<rparr>"
proof -
  let ?ev = "fst (nwEEPROMResetEventGet i s)"
  have "fst (nwEEPROMResetEventGet i (acknowledge_slot i s)) =
      \<lparr>ev_version = map (\<lambda>j. ev_version (acknowledge ?ev True) ! j) [0..<nwVersionSize],
       ev_time = ev_time (acknowledge ?ev True),
       ev_reason = ev_reason (acknowledge ?ev True) AND 0x7F,
       ev_ack = (ev_ack (acknowledge ?ev True) \<or> bit (ev_reason (acknowledge ?ev True)) 7)\<rparr>"
    unfolding acknowledge_slot_def split_beta nwEEPROMResetEventGet_def nwEEPROMResetEventSet_def
    by (rule read_after_write)
  also have "\<dots> = ?ev\<lparr>ev_ack := True\<rparr>"
    using length_version_read [of i s] reason_read_masked [of i s]
    by (simp add: acknowledge_def map_nth_version del: upt_rec_numeral)
  finally show ?thesis .
qed

lemma acknowledge_slot_outside:
  assumes "k < 10" and "unat a < 39 + 37 * k \<or> 39 + 37 * k + 37 \<le> unat a"
  shows "cells (acknowledge_slot (of_nat k) s) a = cells s a"
  using assms by (auto simp add: cells_acknowledge_slot)

lemma acknowledge_slot_other:
  assumes "k < 10" and "m + n \<le> 39 + 37 * k \<or> 39 + 37 * k + 37 \<le> m" and "m + n \<le> 65536"
  shows "stored_bytes (acknowledge_slot (of_nat k) s) (of_nat m) n = stored_bytes s (of_nat m) n"
proof (rule stored_bytes_eqI)
  fix j
  assume j: "j < n"
  then have "unat ((of_nat m :: cint) + of_nat j) = m + j"
    using assms(3) by (intro unat_adr_plus) simp
  then show "cells (acknowledge_slot (of_nat k) s) (of_nat m + of_nat j) = cells s (of_nat m + of_nat j)"
    using assms(1,2) j by (intro acknowledge_slot_outside) auto
qed

section \<open>The addresses an operation accesses\<close>

lemma image_addr_Suc:
  "insert idx ((\<lambda>k. idx + 1 + of_nat k) ` {..<n}) = (\<lambda>k. (idx :: cint) + of_nat k) ` {..<Suc n}"
  by (simp add: lessThan_Suc_eq_insert_0 image_image add.assoc)

lemma set_accessed_EEPROM_get:
  "set (accessed (snd (EEPROM_get idx n s))) = set (accessed s) \<union> (\<lambda>k. idx + of_nat k) ` {..<n}"
proof (induction n arbitrary: idx s)
  case 0
  show ?case by simp
next
  case (Suc n)
  have "set (accessed (snd (EEPROM_get idx (Suc n) s)))
      = set (accessed s) \<union> insert idx ((\<lambda>k. idx + 1 + of_nat k) ` {..<n})"
    using Suc [of "idx + 1" "s\<lparr>accessed := idx # accessed s\<rparr>"]
    by (simp add: eeprom_read_byte_def split_beta)
  then show ?case by (simp only: image_addr_Suc)
qed

lemma set_accessed_EEPROM_put:
  "set (accessed (EEPROM_put idx bs s)) = set (accessed s) \<union> (\<lambda>k. idx + of_nat k) ` {..<length bs}"
proof (induction bs arbitrary: idx s)
  case Nil
  show ?case by simp
next
  case (Cons b bs)
  have "set (accessed (EEPROM_put idx (b # bs) s))
      = set (accessed s) \<union> insert idx ((\<lambda>k. idx + 1 + of_nat k) ` {..<length bs})"
    using Cons [of "idx + 1" "EERef_update idx b s"]
    by (simp add: set_accessed_EERef_update)
  then show ?case by (simp only: image_addr_Suc list.size(4)) simp
qed

lemma addresses_below:
  assumes "m + n \<le> b" and "b \<le> 65536"
  shows "(\<lambda>k. (of_nat m :: cint) + of_nat k) ` {..<n} \<subseteq> {a. unat a < b}"
proof
  fix a
  assume "a \<in> (\<lambda>k. (of_nat m :: cint) + of_nat k) ` {..<n}"
  then obtain k where k: "k < n" "a = of_nat m + of_nat k" by auto
  then have "unat a = m + k"
    using assms by (simp add: unat_adr_plus)
  then show "a \<in> {a. unat a < b}" using k assms by simp
qed

lemma accessed_readFromEEPROM:
  "set (accessed (snd (readFromEEPROM adr s)))
     = set (accessed s) \<union> (\<lambda>k. adr + of_nat k) ` {..<nwEventStrSize}"
  using set_accessed_EEPROM_get [of adr nwEventStrSize s]
  by (simp add: readFromEEPROM_def split_beta)

lemma accessed_writeToEEPROM:
  "set (accessed (writeToEEPROM e adr s))
     = set (accessed s) \<union> (\<lambda>k. adr + of_nat k) ` {..<nwEventStrSize}"
  by (simp add: writeToEEPROM_def set_accessed_EEPROM_put length_nwEventStr_bytes)

lemma accessed_ResetEventGet:
  "set (accessed (snd (nwEEPROMResetEventGet (of_nat k) s)))
     = set (accessed s) \<union> (\<lambda>j. of_nat (39 + 37 * k) + of_nat j) ` {..<37}"
  by (simp only: nwEEPROMResetEventGet_def accessed_readFromEEPROM slot_adr_of_nat)
     (simp only: nwEventStrSize_37)

lemma accessed_ResetEventSet:
  "set (accessed (nwEEPROMResetEventSet e (of_nat k) s))
     = set (accessed s) \<union> (\<lambda>j. of_nat (39 + 37 * k) + of_nat j) ` {..<37}"
  by (simp only: nwEEPROMResetEventSet_def accessed_writeToEEPROM slot_adr_of_nat)
     (simp only: nwEventStrSize_37)

lemma accessed_CountGet:
  "set (accessed (snd (nwEEPROMResetEventCountGet s)))
     = set (accessed s) \<union> (\<lambda>j. of_nat 37 + of_nat j) ` {..<2}"
  using set_accessed_EEPROM_get [of "of_nat nwResetCountAdr" sizeof_int s]
  by (simp add: nwEEPROMResetEventCountGet_def split_beta nwResetCountAdr_37 sizeof_int_def)

lemma accessed_slot_copy:
  "set (accessed (nwEEPROMResetEventSet (fst (nwEEPROMResetEventGet (of_nat (Suc n) - 1) s))
          (of_nat (Suc n)) (snd (nwEEPROMResetEventGet (of_nat (Suc n) - 1) s))))
     = set (accessed s) \<union> (\<lambda>j. of_nat (39 + 37 * n) + of_nat j) ` {..<37}
         \<union> (\<lambda>j. of_nat (39 + 37 * Suc n) + of_nat j) ` {..<37}"
proof -
  have "(of_nat (Suc n) :: cint) - 1 = of_nat n" by simp
  then show ?thesis
    by (simp only: accessed_ResetEventSet accessed_ResetEventGet)
qed

lemma accessed_shift_loop:
  "n \<le> 9 \<Longrightarrow>
   set (accessed (shift_loop (of_nat n) s)) \<subseteq> set (accessed s) \<union> {a. unat a < 76 + 37 * n}"
proof (induction n arbitrary: s)
  case 0
  show ?case by (simp add: shift_loop_nonpos)
next
  case (Suc n)
  let ?s1 = "nwEEPROMResetEventSet (fst (nwEEPROMResetEventGet (of_nat (Suc n) - 1) s))
     (of_nat (Suc n)) (snd (nwEEPROMResetEventGet (of_nat (Suc n) - 1) s))"
  have n: "n \<le> 9" "Suc n < 32768" using Suc.prems by simp_all
  have a1: "(\<lambda>j. (of_nat (39 + 37 * n) :: cint) + of_nat j) ` {..<37} \<subseteq> {a. unat a < 76 + 37 * Suc n}"
    using n by (intro addresses_below) simp_all
  have a2: "(\<lambda>j. (of_nat (39 + 37 * Suc n) :: cint) + of_nat j) ` {..<37} \<subseteq> {a. unat a < 76 + 37 * Suc n}"
    using n by (intro addresses_below) simp_all
  have s1: "set (accessed ?s1) \<subseteq> set (accessed s) \<union> {a. unat a < 76 + 37 * Suc n}"
    unfolding accessed_slot_copy using a1 a2 by blast
  have "set (accessed (shift_loop (of_nat n) ?s1)) \<subseteq> set (accessed ?s1) \<union> {a. unat a < 76 + 37 * n}"
    by (rule Suc.IH [OF n(1)])
  moreover have "{a :: cint. unat a < 76 + 37 * n} \<subseteq> {a. unat a < 76 + 37 * Suc n}"
    by auto
  ultimately show ?case
    unfolding shift_loop_Suc [OF n(2)] using s1 by blast
qed

lemma accessed_shift_loop_mono:
  "n < 32768 \<Longrightarrow> set (accessed s) \<subseteq> set (accessed (shift_loop (of_nat n) s))"
proof (induction n arbitrary: s)
  case 0
  show ?case by (simp add: shift_loop_nonpos)
next
  case (Suc n)
  let ?s1 = "nwEEPROMResetEventSet (fst (nwEEPROMResetEventGet (of_nat (Suc n) - 1) s))
     (of_nat (Suc n)) (snd (nwEEPROMResetEventGet (of_nat (Suc n) - 1) s))"
  have n: "n < 32768" using Suc.prems by simp
  have "set (accessed s) \<subseteq> set (accessed ?s1)"
    unfolding accessed_slot_copy by blast
  moreover have "set (accessed ?s1) \<subseteq> set (accessed (shift_loop (of_nat n) ?s1))"
    by (rule Suc.IH [OF n])
  ultimately show ?case
    unfolding shift_loop_Suc [OF Suc.prems] by blast
qed

lemma accessed_SetNew:
  "set (accessed (nwEEPROMResetEventSetNew ev index s)) =
     set (accessed (shift_loop (shift_count s) (snd (nwEEPROMResetEventCountGet s))))
       \<union> (\<lambda>j. of_nat (39 + 37 * 0) + of_nat j) ` {..<37}
       \<union> (\<lambda>j. of_nat 37 + of_nat j) ` {..<2}"
proof -
  have "set (accessed (nwEEPROMResetEventSet ev (of_nat 0) t))
     = set (accessed t) \<union> (\<lambda>j. of_nat (39 + 37 * 0) + of_nat j) ` {..<37}" for t
    by (rule accessed_ResetEventSet)
  then show ?thesis
    unfolding SetNew_unfold set_accessed_EEPROM_put length_int_bytes nwResetCountAdr_37
    by simp
qed

lemma count_after_insert:
  "fst (nwEEPROMResetEventCountGet (nwEEPROMResetEventSetNew ev index s)) =
     (if fst (nwEEPROMResetEventCountGet s) = 10 then 10
      else fst (nwEEPROMResetEventCountGet s) + 1)"
  by (simp add: stored_count_after shift_count_def NW_MAX_RESET_EVENT_def)

lemma accessed_insert_small:
  assumes "fst (nwEEPROMResetEventCountGet s) \<le>s 10"
  shows "set (accessed (nwEEPROMResetEventSetNew ev index s)) \<subseteq> set (accessed s) \<union> {a. unat a < 409}"
proof -
  let ?c = "fst (nwEEPROMResetEventCountGet s)"
  let ?s1 = "snd (nwEEPROMResetEventCountGet s)"
  have b0: "(\<lambda>j. (of_nat (39 + 37 * 0) :: cint) + of_nat j) ` {..<37} \<subseteq> {a. unat a < 409}"
    by (intro addresses_below) simp_all
  have b1: "(\<lambda>j. (of_nat 37 :: cint) + of_nat j) ` {..<2} \<subseteq> {a. unat a < 409}"
    by (intro addresses_below) simp_all
  have s1: "set (accessed ?s1) \<subseteq> set (accessed s) \<union> {a. unat a < 409}"
    unfolding accessed_CountGet using b1 by blast
  have loop: "set (accessed (shift_loop (shift_count s) ?s1)) \<subseteq> set (accessed ?s1) \<union> {a. unat a < 409}"
  proof (cases "0 \<le>s ?c")
    case True
    obtain n where n: "n \<le> 10" "?c = of_nat n"
      using small_count_of_nat [OF True assms] by blast
    have c1: "shift_count s = of_nat (min n 9)"
      using n by (intro shift_count_small) simp_all
    have "set (accessed (shift_loop (of_nat (min n 9)) ?s1))
        \<subseteq> set (accessed ?s1) \<union> {a. unat a < 76 + 37 * min n 9}"
      by (intro accessed_shift_loop) simp
    moreover have "{a :: cint. unat a < 76 + 37 * min n 9} \<subseteq> {a. unat a < 409}"
      by auto
    ultimately show ?thesis unfolding c1 by blast
  next
    case False
    then have neg: "sint ?c < 0" by (simp add: word_sle_eq)
    then have "?c \<noteq> 10" by auto
    then have "shift_count s = ?c" by (simp add: shift_count_def NW_MAX_RESET_EVENT_def)
    moreover have "\<not> 0 <s ?c" using neg by (simp add: word_sless_alt)
    ultimately show ?thesis by (simp add: shift_loop_nonpos)
  qed
  show ?thesis
    unfolding accessed_SetNew using s1 loop b0 b1 by blast
qed

lemma count_erased: "fst (nwEEPROMResetEventCountGet erased_nvm) = 0xFFFF"
  by (simp add: fst_CountGet nwResetCountAdr_37 sizeof_int_def stored_bytes_2 erased_nvm_def
      int_of_bytes_def)

lemma count_eleven: "fst (nwEEPROMResetEventCountGet nvm_eleven) = 11"
  by (simp add: fst_CountGet nwResetCountAdr_37 sizeof_int_def stored_bytes_2 nvm_eleven_def
      int_of_bytes_def)

section \<open>The claims\<close>

text \<open>
  C1: for every store whose count \<open>c\<close> is in 0..10 and every event, after
  \<^verbatim>\<open>nwEEPROMResetEventSetNew\<close> the stored count is \<open>min (c + 1) 10\<close>, slot 0 holds the bytes
  of the event (and reads back as the event itself when its version has 32 bytes and its
  reason is in 0..127), and every slot \<open>i\<close> with \<open>1 \<le> i < min (c + 1) 10\<close> holds what slot
  \<open>i - 1\<close> held before; with \<open>c = 10\<close> slot 9 receives the old slot 8, so that the old slot 9
  is dropped.
\<close>

theorem reset_event_insert_shifts:
  assumes "fst (nwEEPROMResetEventCountGet s) = c" and "0 \<le>s c" and "c \<le>s 10"
  shows "sint (fst (nwEEPROMResetEventCountGet (nwEEPROMResetEventSetNew ev index s)))
           = min (sint c + 1) 10 \<and>
         slot_bytes (nwEEPROMResetEventSetNew ev index s) 0 = nwEventStr_bytes (nwEvent_to_str ev) \<and>
         (length (ev_version ev) = nwVersionSize \<and> ev_reason ev \<le> 127 \<longrightarrow>
            fst (nwEEPROMResetEventGet 0 (nwEEPROMResetEventSetNew ev index s)) = ev) \<and>
         (\<forall>i. 1 \<le> sint i \<and> sint i < min (sint c + 1) 10 \<longrightarrow>
            slot_bytes (nwEEPROMResetEventSetNew ev index s) i = slot_bytes s (i - 1) \<and>
            fst (nwEEPROMResetEventGet i (nwEEPROMResetEventSetNew ev index s))
              = fst (nwEEPROMResetEventGet (i - 1) s))"
proof -
  let ?s' = "nwEEPROMResetEventSetNew ev index s"
  obtain n where n: "n \<le> 10" "c = of_nat n"
    using small_count_of_nat [OF assms(2,3)] by blast
  have sc: "sint c = int n"
    using n by (simp add: sint_of_nat_cint)
  have c1: "shift_count s = of_nat (min n 9)"
    using assms(1) n by (intro shift_count_small) simp_all
  have "shift_count s + 1 = of_nat (min n 9 + 1)"
    by (simp add: c1)
  then have "sint (shift_count s + 1) = int (min n 9 + 1)"
    by (simp only: sint_of_nat_cint)
  then have count: "sint (fst (nwEEPROMResetEventCountGet ?s')) = min (sint c + 1) 10"
    using n(1) by (simp add: stored_count_after sc)
  have slot0: "slot_bytes ?s' 0 = nwEventStr_bytes (nwEvent_to_str ev)"
    by (rule slot0_after)
  have get0: "length (ev_version ev) = nwVersionSize \<and> ev_reason ev \<le> 127 \<longrightarrow>
      fst (nwEEPROMResetEventGet 0 ?s') = ev"
    by (simp add: fst_ResetEventGet slot0 roundtrip_wellformed)
  have shift: "slot_bytes ?s' i = slot_bytes s (i - 1) \<and>
      fst (nwEEPROMResetEventGet i ?s') = fst (nwEEPROMResetEventGet (i - 1) s)"
    if i: "1 \<le> sint i \<and> sint i < min (sint c + 1) 10" for i
  proof -
    define k where "k = nat (sint i)"
    have i': "1 \<le> sint i" "sint i \<le> int n" "sint i < 10"
      using i n(1) by (simp_all add: sc)
    have k: "1 \<le> k" "k \<le> min n 9"
      using i' unfolding k_def by linarith+
    have ik: "i = of_nat k"
      using i' by (simp add: k_def)
    have "i - 1 = of_nat (k - 1)"
      using k(1) by (simp add: ik)
    moreover have "min n 9 \<le> 9" by (rule min.cobounded2)
    then have "slot_bytes ?s' (of_nat k) = slot_bytes s (of_nat (k - 1))"
      using c1 k by (intro slot_shifted)
    ultimately have "slot_bytes ?s' i = slot_bytes s (i - 1)"
      by (simp only: ik)
    then show ?thesis
      by (simp add: fst_ResetEventGet)
  qed
  show ?thesis
    using count slot0 get0 shift by blast
qed

theorem reset_event_insert_shifts_witness:
  "fst (nwEEPROMResetEventCountGet nvm_two) = 2 \<and> (0 :: cint) \<le>s 2 \<and> (2 :: cint) \<le>s 10 \<and>
   sint (fst (nwEEPROMResetEventCountGet
     (nwEEPROMResetEventSetNew (nwEvent_default 0) 0 nvm_two))) = 3 \<and>
   slot_bytes (nwEEPROMResetEventSetNew (nwEvent_default 0) 0 nvm_two) 0
     = nwEventStr_bytes (nwEvent_to_str (nwEvent_default 0)) \<and>
   fst (nwEEPROMResetEventGet 0 (nwEEPROMResetEventSetNew (nwEvent_default 0) 0 nvm_two))
     = nwEvent_default 0 \<and>
   slot_bytes (nwEEPROMResetEventSetNew (nwEvent_default 0) 0 nvm_two) 1 = slot_bytes nvm_two 0 \<and>
   slot_bytes (nwEEPROMResetEventSetNew (nwEvent_default 0) 0 nvm_two) 2 = slot_bytes nvm_two 1"
proof -
  have h1: "fst (nwEEPROMResetEventCountGet nvm_two) = 2"
    by (simp add: fst_CountGet nwResetCountAdr_37 sizeof_int_def stored_bytes_2 nvm_two_def
        int_of_bytes_def)
  have h2: "(0 :: cint) \<le>s 2" and h3: "(2 :: cint) \<le>s 10"
    by (simp_all add: word_sle_eq)
  have wf: "length (ev_version (nwEvent_default 0)) = nwVersionSize \<and>
      ev_reason (nwEvent_default 0) \<le> 127"
    by (simp add: nwEvent_default_def length_version_setup)
      (simp add: nwEvent_setup_def NW_REASON_DEFAULT_def NW_REASON_NOPING_def)
  have i1: "1 \<le> sint (1 :: cint) \<and> sint (1 :: cint) < min (sint (2 :: cint) + 1) 10"
    and i2: "1 \<le> sint (2 :: cint) \<and> sint (2 :: cint) < min (sint (2 :: cint) + 1) 10"
    by simp_all
  have d: "(1 :: cint) - 1 = 0" "(2 :: cint) - 1 = 1" by simp_all
  note t = reset_event_insert_shifts [OF h1 h2 h3, of "nwEvent_default 0" 0]
  have "sint (fst (nwEEPROMResetEventCountGet
     (nwEEPROMResetEventSetNew (nwEvent_default 0) 0 nvm_two))) = 3"
    using t by simp
  moreover have "slot_bytes (nwEEPROMResetEventSetNew (nwEvent_default 0) 0 nvm_two) 1
      = slot_bytes nvm_two 0"
    using t i1 d(1) by metis
  moreover have "slot_bytes (nwEEPROMResetEventSetNew (nwEvent_default 0) 0 nvm_two) 2
      = slot_bytes nvm_two 1"
    using t i2 d(2) by metis
  ultimately show ?thesis
    using h1 h2 h3 t wf by blast
qed

text \<open>
  C2 (as amended): serializing an event whose version field has its 32 bytes and reading
  the same address back returns the version, the timestamp and \<open>reason AND 0x7F\<close>
  unchanged, and an acknowledgement flag that is the stored flag or bit 7 of the in-memory
  reason. The round trip is the identity on (version, timestamp, reason AND 0x7F, acked)
  exactly when acked is set or bit 7 of the reason is clear, as for every reason in 0..127.
\<close>

theorem write_then_read_event:
  assumes "length (ev_version e) = nwVersionSize"
  shows "event_tuple (fst (readFromEEPROM adr (writeToEEPROM e adr s))) =
           (ev_version e, ev_time e, ev_reason e AND 0x7F, ev_ack e \<or> bit (ev_reason e) 7) \<and>
         ((event_tuple (fst (readFromEEPROM adr (writeToEEPROM e adr s))) =
             (ev_version e, ev_time e, ev_reason e AND 0x7F, ev_ack e))
           = (ev_ack e \<or> \<not> bit (ev_reason e) 7))"
  using assms
  by (auto simp add: read_after_write event_tuple_def map_nth_version simp del: upt_rec_numeral)

theorem write_then_read_event_witness:
  "length (ev_version (nwEvent_default 0)) = nwVersionSize \<and>
   event_tuple (fst (readFromEEPROM 0 (writeToEEPROM (nwEvent_default 0) 0 erased_nvm))) =
     (ev_version (nwEvent_default 0), 0, 1, False)"
proof -
  have l: "length (ev_version (nwEvent_default 0)) = nwVersionSize"
    by (simp add: nwEvent_default_def length_version_setup)
  have f: "ev_time (nwEvent_default 0) = 0" "ev_reason (nwEvent_default 0) = 1"
      "ev_ack (nwEvent_default 0) = False"
    by (simp_all add: nwEvent_default_def nwEvent_setup_def NW_REASON_DEFAULT_def NW_REASON_NOPING_def)
  show ?thesis
    using l write_then_read_event [OF l, of 0 erased_nvm] by (simp add: f)
qed

text \<open>
  The claim as stated fails for the event constructed with reason 128 (not acknowledged):
  it reads back acknowledged.
\<close>

theorem write_then_read_event_counterexample:
  "event_tuple (fst (readFromEEPROM 0 (writeToEEPROM (nwEvent_with_reason 0 0x80) 0 erased_nvm))) \<noteq>
     (ev_version (nwEvent_with_reason 0 0x80), ev_time (nwEvent_with_reason 0 0x80),
      ev_reason (nwEvent_with_reason 0 0x80) AND 0x7F, ev_ack (nwEvent_with_reason 0 0x80))"
  by (simp add: read_after_write event_tuple_def nwEvent_with_reason_def nwEvent_setup_def
      del: upt_rec_numeral)

text \<open>
  C3 (as amended): for every stored count \<open>c\<close>, read as a 16-bit \<^verbatim>\<open>int\<close>,
  \<^verbatim>\<open>nwEEPROMResetEventSetNew\<close> writes the new event to slot 0 and stores \<open>c + 1\<close> (10 when
  \<open>c = 10\<close>); an out-of-range count is not taken as 0, and from the erased value
  \<^verbatim>\<open>0xFFFF\<close> (that is, -1) the stored count becomes 0. When \<open>c \<le> 10\<close>, negative values
  included, the call accesses no address outside \<open>[0, 409)\<close>.
\<close>

theorem insert_with_any_count:
  "slot_bytes (nwEEPROMResetEventSetNew ev index s) 0 = nwEventStr_bytes (nwEvent_to_str ev) \<and>
   fst (nwEEPROMResetEventCountGet (nwEEPROMResetEventSetNew ev index s)) =
     (if fst (nwEEPROMResetEventCountGet s) = 10 then 10
      else fst (nwEEPROMResetEventCountGet s) + 1) \<and>
   (fst (nwEEPROMResetEventCountGet s) = 0xFFFF \<longrightarrow>
      fst (nwEEPROMResetEventCountGet (nwEEPROMResetEventSetNew ev index s)) = 0) \<and>
   (fst (nwEEPROMResetEventCountGet s) \<le>s 10 \<longrightarrow>
      set (accessed (nwEEPROMResetEventSetNew ev index s))
        \<subseteq> set (accessed s) \<union> {a. unat a < 409})"
  using accessed_insert_small [of s ev index]
  by (simp add: slot0_after count_after_insert)

theorem insert_with_any_count_witness:
  "fst (nwEEPROMResetEventCountGet erased_nvm) = 0xFFFF \<and>
   fst (nwEEPROMResetEventCountGet erased_nvm) \<le>s 10 \<and>
   slot_bytes (nwEEPROMResetEventSetNew (nwEvent_default 0) 0 erased_nvm) 0
     = nwEventStr_bytes (nwEvent_to_str (nwEvent_default 0)) \<and>
   fst (nwEEPROMResetEventCountGet (nwEEPROMResetEventSetNew (nwEvent_default 0) 0 erased_nvm)) = 0 \<and>
   set (accessed (nwEEPROMResetEventSetNew (nwEvent_default 0) 0 erased_nvm)) \<subseteq> {a. unat a < 409}"
proof -
  have h1: "fst (nwEEPROMResetEventCountGet erased_nvm) = 0xFFFF"
    by (rule count_erased)
  have h2: "fst (nwEEPROMResetEventCountGet erased_nvm) \<le>s 10"
    unfolding h1 by (simp add: word_sle_eq)
  have e: "set (accessed erased_nvm) = {}"
    by (simp add: erased_nvm_def)
  show ?thesis
    using h1 h2 e insert_with_any_count [of "nwEvent_default 0" 0 erased_nvm] by simp
qed

text \<open>
  The claim as stated fails: on the erased store the count stored is 0, not 1, and with a
  stored count of 11 the shifting loop reads address 409.
\<close>

theorem insert_with_any_count_counterexample:
  "fst (nwEEPROMResetEventCountGet (nwEEPROMResetEventSetNew (nwEvent_default 0) 0 erased_nvm)) \<noteq> 1 \<and>
   \<not> set (accessed (nwEEPROMResetEventSetNew (nwEvent_default 0) 0 nvm_eleven)) \<subseteq> {a. unat a < 409}"
proof -
  have "fst (nwEEPROMResetEventCountGet (nwEEPROMResetEventSetNew (nwEvent_default 0) 0 erased_nvm)) = 0"
    by (simp add: count_after_insert count_erased)
  then have c: "fst (nwEEPROMResetEventCountGet
      (nwEEPROMResetEventSetNew (nwEvent_default 0) 0 erased_nvm)) \<noteq> 1"
    by simp
  let ?s1 = "snd (nwEEPROMResetEventCountGet nvm_eleven)"
  let ?s2 = "nwEEPROMResetEventSet (fst (nwEEPROMResetEventGet (of_nat (Suc 10) - 1) ?s1))
     (of_nat (Suc 10)) (snd (nwEEPROMResetEventGet (of_nat (Suc 10) - 1) ?s1))"
  have "shift_count nvm_eleven = of_nat (Suc 10)"
    by (simp add: shift_count_def count_eleven NW_MAX_RESET_EVENT_def)
  then have l: "shift_loop (shift_count nvm_eleven) ?s1 = shift_loop (of_nat 10) ?s2"
    by (simp only: shift_loop_Suc)
  have "(0 :: nat) \<in> {..<37}" by simp
  then have "(of_nat (39 + 37 * 10) :: cint) + of_nat 0
      \<in> (\<lambda>j. of_nat (39 + 37 * 10) + of_nat j) ` {..<37}"
    by (rule imageI)
  then have "(of_nat (39 + 37 * 10) :: cint) + of_nat 0 \<in> set (accessed ?s2)"
    unfolding accessed_slot_copy by blast
  then have "(409 :: cint) \<in> set (accessed ?s2)" by simp
  moreover have "set (accessed ?s2) \<subseteq> set (accessed (shift_loop (of_nat 10) ?s2))"
    by (intro accessed_shift_loop_mono) simp
  ultimately have "(409 :: cint) \<in> set (accessed (nwEEPROMResetEventSetNew (nwEvent_default 0) 0 nvm_eleven))"
    unfolding accessed_SetNew l by blast
  moreover have "\<not> unat (409 :: cint) < 409" by simp
  ultimately have "\<not> set (accessed (nwEEPROMResetEventSetNew (nwEvent_default 0) 0 nvm_eleven))
      \<subseteq> {a. unat a < 409}"
    by blast
  then show ?thesis using c by simp
qed

text \<open>
  C4 (as amended): the byte stored at offset 36 (the 37th and last byte of the layout) is
  the low byte of the in-memory reason, or-ed with \<open>0x80\<close> when the event is acknowledged.
  It equals \<open>(acked << 7) | (reason & 0x7F)\<close> exactly when acked is set or bit 7 of the
  reason is clear, as for every reason in 0..127.
\<close>

theorem written_packed_byte:
  "cells (writeToEEPROM e adr s) (adr + 36) = nwEventStr_bytes (nwEvent_to_str e) ! 36 \<and>
   nwEventStr_bytes (nwEvent_to_str e) ! 36
     = ucast (ev_reason e) OR (if ev_ack e then 0x80 else 0) \<and>
   ((cells (writeToEEPROM e adr s) (adr + 36)
       = push_bit 7 (of_bool (ev_ack e)) OR ucast (ev_reason e AND 0x7F))
     = (ev_ack e \<or> \<not> bit (ev_reason e) 7))"
proof -
  have "unat (adr + 36 - adr) = 36" by simp
  then have c: "cells (writeToEEPROM e adr s) (adr + 36) = nwEventStr_bytes (nwEvent_to_str e) ! 36"
    by (simp add: cells_writeToEEPROM nwEventStrSize_37)
  show ?thesis
    unfolding c last_byte_written by (simp add: packed_byte_iff)
qed

text \<open>
  The claim as stated fails for the event constructed with reason 128 (not acknowledged):
  the stored byte is \<open>0x80\<close>, the claimed one is 0.
\<close>

theorem written_packed_byte_counterexample:
  "cells (writeToEEPROM (nwEvent_with_reason 0 0x80) 0 erased_nvm) (0 + 36) \<noteq>
     push_bit 7 (of_bool (ev_ack (nwEvent_with_reason 0 0x80)))
       OR ucast (ev_reason (nwEvent_with_reason 0 0x80) AND 0x7F)"
proof -
  have "cells (writeToEEPROM (nwEvent_with_reason 0 0x80) 0 erased_nvm) (0 + 36) = 0x80"
    by (simp add: cells_writeToEEPROM nwEventStrSize_37 last_byte_written
        nwEvent_with_reason_def nwEvent_setup_def)
  moreover have "push_bit 7 (of_bool (ev_ack (nwEvent_with_reason 0 0x80)))
       OR ucast (ev_reason (nwEvent_with_reason 0 0x80) AND 0x7F) = (0 :: byte)"
    by (simp add: nwEvent_with_reason_def nwEvent_setup_def)
  ultimately show ?thesis by simp
qed

text \<open>
  C5 (as amended): the events made by the two constructors have a null-terminated version
  field; \<^verbatim>\<open>readFromEEPROM\<close> copies the 32 stored bytes as they are, so that the version it
  returns is null-terminated exactly when one of the 32 stored bytes is null.
\<close>

theorem version_null_terminated:
  "null_terminated (ev_version (nwEvent_default now)) \<and>
   null_terminated (ev_version (nwEvent_with_reason now reason)) \<and>
   (null_terminated (ev_version (fst (readFromEEPROM adr s)))
      = (0 \<in> set (stored_bytes s adr nwVersionSize)))"
  by (simp add: nwEvent_default_def nwEvent_with_reason_def null_terminated_setup
      ev_version_read)
    (simp add: null_terminated_def length_stored_bytes)

text \<open>The claim as stated fails on the erased store, read at address 0.\<close>

theorem version_null_terminated_counterexample:
  "\<not> null_terminated (ev_version (fst (readFromEEPROM 0 erased_nvm)))"
  by (auto simp add: ev_version_read null_terminated_def stored_bytes_def erased_nvm_def)

text \<open>
  C6: for every slot index \<open>i\<close> in 0..9 and every store, reading slot \<open>i\<close>, acknowledging the
  event and writing it back with \<^verbatim>\<open>nwEEPROMResetEventSet\<close> gives a store in which slot \<open>i\<close>
  reads back acknowledged, with the version, the time and the reason it had before, while
  every other slot, the initialization event and the count (indeed every cell outside the
  37 bytes of slot \<open>i\<close>) are unchanged.
\<close>

theorem acknowledge_slot_in_place:
  assumes "0 \<le>s i" and "i <s 10"
  shows "ev_ack (fst (nwEEPROMResetEventGet i (acknowledge_slot i s))) = True \<and>
         ev_version (fst (nwEEPROMResetEventGet i (acknowledge_slot i s)))
           = ev_version (fst (nwEEPROMResetEventGet i s)) \<and>
         ev_time (fst (nwEEPROMResetEventGet i (acknowledge_slot i s)))
           = ev_time (fst (nwEEPROMResetEventGet i s)) \<and>
         ev_reason (fst (nwEEPROMResetEventGet i (acknowledge_slot i s)))
           = ev_reason (fst (nwEEPROMResetEventGet i s)) \<and>
         (\<forall>j. 0 \<le>s j \<and> j <s 10 \<and> j \<noteq> i \<longrightarrow>
            slot_bytes (acknowledge_slot i s) j = slot_bytes s j) \<and>
         stored_bytes (acknowledge_slot i s) (of_nat nwInitEventAdr) nwEventStrSize
           = stored_bytes s (of_nat nwInitEventAdr) nwEventStrSize \<and>
         stored_bytes (acknowledge_slot i s) (of_nat nwResetCountAdr) sizeof_int
           = stored_bytes s (of_nat nwResetCountAdr) sizeof_int \<and>
         (\<forall>a. unat a < 39 + 37 * nat (sint i) \<or> 39 + 37 * nat (sint i) + 37 \<le> unat a \<longrightarrow>
            cells (acknowledge_slot i s) a = cells s a)"
proof -
  obtain k where k: "k < 10" "i = of_nat k"
    using index_of_nat [OF assms] by blast
  have sk: "nat (sint i) = k"
    using k by (simp add: sint_of_nat_cint)
  have other: "slot_bytes (acknowledge_slot i s) j = slot_bytes s j"
    if j: "0 \<le>s j \<and> j <s 10 \<and> j \<noteq> i" for j
  proof -
    obtain m where m: "m < 10" "j = of_nat m"
      using index_of_nat [of j] j by blast
    have "m \<noteq> k" using j k(2) m(2) by auto
    then have "39 + 37 * m + 37 \<le> 39 + 37 * k \<or> 39 + 37 * k + 37 \<le> 39 + 37 * m"
      by linarith
    then have "stored_bytes (acknowledge_slot (of_nat k) s) (of_nat (39 + 37 * m)) 37
        = stored_bytes s (of_nat (39 + 37 * m)) 37"
      using k(1) m(1) by (intro acknowledge_slot_other) simp_all
    then show ?thesis
      by (simp only: m(2) k(2) slot_bytes_of_nat)
  qed
  have init: "stored_bytes (acknowledge_slot (of_nat k) s) (of_nat 0) 37 = stored_bytes s (of_nat 0) 37"
    using k(1) by (intro acknowledge_slot_other) simp_all
  have count: "stored_bytes (acknowledge_slot (of_nat k) s) (of_nat 37) 2 = stored_bytes s (of_nat 37) 2"
    using k(1) by (intro acknowledge_slot_other) simp_all
  have frame: "\<forall>a. unat a < 39 + 37 * nat (sint i) \<or> 39 + 37 * nat (sint i) + 37 \<le> unat a \<longrightarrow>
      cells (acknowledge_slot i s) a = cells s a"
    unfolding sk using k acknowledge_slot_outside [of k] by blast
  show ?thesis
    using other init count frame
    by (simp add: read_acknowledged k(2) nwInitEventAdr_def nwResetCountAdr_37 nwEventStrSize_37
        sizeof_int_def)
qed

theorem acknowledge_slot_in_place_witness:
  "(0 :: cint) \<le>s 0 \<and> (0 :: cint) <s 10 \<and>
   ev_ack (fst (nwEEPROMResetEventGet 0 (acknowledge_slot 0 nvm_two))) = True \<and>
   ev_reason (fst (nwEEPROMResetEventGet 0 (acknowledge_slot 0 nvm_two)))
     = ev_reason (fst (nwEEPROMResetEventGet 0 nvm_two)) \<and>
   slot_bytes (acknowledge_slot 0 nvm_two) 1 = slot_bytes nvm_two 1 \<and>
   stored_bytes (acknowledge_slot 0 nvm_two) (of_nat nwResetCountAdr) sizeof_int
     = stored_bytes nvm_two (of_nat nwResetCountAdr) sizeof_int"
proof -
  have h1: "(0 :: cint) \<le>s 0" and h2: "(0 :: cint) <s 10"
    by (simp_all add: word_sle_eq word_sless_alt)
  have j: "(0 :: cint) \<le>s 1 \<and> (1 :: cint) <s 10 \<and> (1 :: cint) \<noteq> 0"
    by (simp add: word_sle_eq word_sless_alt)
  note t = acknowledge_slot_in_place [OF h1 h2, of nvm_two]
  have "slot_bytes (acknowledge_slot 0 nvm_two) 1 = slot_bytes nvm_two 1"
    using t j by blast
  then show ?thesis
    using h1 h2 t by blast
qed

text \<open>
  C7: for every \<^verbatim>\<open>int\<close> code, \<^verbatim>\<open>nwReasonString\<close> returns "initialization" exactly when the
  code is 0, "no ping" exactly when it is 1, "external command" exactly when it is at
  least 16, and "unknown reason code" in all other cases (2..15 and the negative codes).
\<close>

theorem nwReasonString_labels:
  "(nwReasonString code = ''initialization'') = (code = 0) \<and>
   (nwReasonString code = ''no ping'') = (code = 1) \<and>
   (nwReasonString code = ''external command'') = (16 \<le> sint code) \<and>
   (nwReasonString code = ''unknown reason code'') = (code \<noteq> 0 \<and> code \<noteq> 1 \<and> sint code < 16)"
  by (auto simp: nwReasonString_def NW_REASON_INIT_def NW_REASON_NOPING_def
      NW_REASON_COMMAND_START_def word_sle_eq)

text \<open>
  C8: the serialized structure has 37 bytes, the count is at offset 37 and has 2 bytes,
  ring slot \<open>i\<close> (for \<open>i < 10\<close>) starts at offset \<open>39 + 37 * i\<close>, and the log (initialization
  event, count and ten slots) occupies exactly the addresses 0..408.
\<close>

theorem log_layout:
  "nwEventStrSize = 37 \<and> nwResetCountAdr = 37 \<and> sizeof_int = 2 \<and>
   (\<forall>i<10. unat (of_nat nwResetEventAdr + of_nat i * of_nat nwEventStrSize :: cint) = 39 + 37 * i) \<and>
   log_region = {0 ..< 409}"
proof -
  have "unat (of_nat nwResetEventAdr + of_nat i * of_nat nwEventStrSize :: cint) = 39 + 37 * i"
    if "i < 10" for i
  proof -
    have "unat (of_nat (39 + 37 * i) :: cint) = 39 + 37 * i"
      using that by (intro unat_of_nat_cint) simp
    then show ?thesis by (simp only: slot_adr_of_nat)
  qed
  then show ?thesis
    by (simp add: nwEventStrSize_37 nwResetCountAdr_37 sizeof_int_def log_region_409)
qed

theorem log_layout_witness:
  "(9 :: nat) < 10 \<and>
   unat (of_nat nwResetEventAdr + of_nat 9 * of_nat nwEventStrSize :: cint) = 372 \<and>
   nwEventStrSize = 37 \<and> log_region = {0 ..< 409}"
proof -
  have "(9 :: nat) < 10" by simp
  moreover from log_layout
  have "\<forall>i<10. unat (of_nat nwResetEventAdr + of_nat i * of_nat nwEventStrSize :: cint) = 39 + 37 * i"
    by (elim conjE)
  ultimately
  have "unat (of_nat nwResetEventAdr + of_nat 9 * of_nat nwEventStrSize :: cint) = 39 + 37 * 9"
    by blast
  then show ?thesis
    using log_layout by simp
qed

text \<open>
  C9: the index argument of \<^verbatim>\<open>nwEEPROMResetEventSetNew\<close> has no effect: for every event,
  every store and any two index arguments the resulting stores are equal, and the event is
  always written to slot 0.
\<close>

theorem index_has_no_effect:
  "nwEEPROMResetEventSetNew ev i s = nwEEPROMResetEventSetNew ev j s \<and>
   slot_bytes (nwEEPROMResetEventSetNew ev i s) 0 = nwEventStr_bytes (nwEvent_to_str ev)"
  by (simp add: slot0_after) (simp add: nwEEPROMResetEventSetNew_def)

text \<open>
  C10: for any stored content at an address, \<^verbatim>\<open>readFromEEPROM\<close> followed by
  \<^verbatim>\<open>writeToEEPROM\<close> of the record read, at the same address, leaves every stored byte as it
  was: the 37 bytes of the record (the packed byte and the version bytes after the first
  null included) and all the others.
\<close>

theorem read_then_write_leaves_store:
  "cells (writeToEEPROM (fst (readFromEEPROM adr s)) adr (snd (readFromEEPROM adr s))) = cells s"
  unfolding writeToEEPROM_def fst_readFromEEPROM
  by (simp add: bytes_roundtrip length_stored_bytes cells_put_stored cells_readFromEEPROM
      nwEventStrSize_37)

end
